theory Spec2Isabelle
  imports Complex_Main "HOL-Library.AList" "HOL-Library.Log_Nat"
begin

section \<open>Common modelling conventions\<close>

text \<open>
  The repository is Python on top of numpy and scipy. A one-dimensional numpy array of
  floats is modelled as a \<open>real list\<close>: the elements are the finite values the floats
  stand for, and infinities and NaN are not modelled. The rounding of float arithmetic
  is modelled where the code itself computes with Python floats and a property depends
  on it (the composition dictionary, below); the curves that the absent numerical core
  computes are passed through as they are. Every exception the modelled code can raise
  is a value of \<open>py_error\<close>, and a function that can raise returns \<open>py_error + 'a\<close> with
  \<open>Inl\<close> for the exception.
\<close>

datatype py_error =
    IndexError | ValueError | ZeroDivisionError | KeyError | UnboundLocalError | TypeError
  | OtherError

subsection \<open>Python floats\<close>

text \<open>
  A Python float is an IEEE 754 binary64 number. Converting a decimal text and every
  arithmetic operation give the exact result rounded to the nearest binary64 number,
  ties to the even significand: \<open>py_float\<close> is that rounding. A number of binary
  exponent \<open>e\<close> (at least -1022; the subnormal numbers share the exponent -1022) is
  rounded to a multiple of \<open>2 powi (e - 52)\<close>. A result of magnitude \<open>2 ^ 1024\<close> or
  more, which the machine turns into an infinity, is outside the model. Python's
  \<open>sum\<close> adds from the left, starting from 0 (the interpreters on which \<open>np.float\<close>
  still exists do; compensated summation came with Python 3.12).
\<close>

definition round_half_even :: "real \<Rightarrow> int" where
  "round_half_even r =
     (let f = \<lfloor>r\<rfloor>; t = r - of_int f
      in if t < 1 / 2 then f else if 1 / 2 < t then f + 1 else if even f then f else f + 1)"

definition float_exponent :: "real \<Rightarrow> int" where
  "float_exponent x = max \<lfloor>log 2 \<bar>x\<bar>\<rfloor> (- 1022)"

definition py_float :: "real \<Rightarrow> real" where
  "py_float x =
     (if x = 0 then 0
      else of_int (round_half_even (x / 2 powi (float_exponent x - 52)))
             * 2 powi (float_exponent x - 52))"

definition float_add :: "real \<Rightarrow> real \<Rightarrow> real" where
  "float_add x y = py_float (x + y)"

definition float_div :: "real \<Rightarrow> real \<Rightarrow> real" where
  "float_div x y = py_float (x / y)"

definition float_sum :: "real list \<Rightarrow> real" where
  "float_sum xs = foldl float_add 0 xs"

text \<open>
  The unit roundoff of binary64 and the largest rounding error in the subnormal range.
\<close>

definition unit_roundoff :: real where
  "unit_roundoff = 2 powi (- 53)"

definition underflow_err :: real where
  "underflow_err = 2 powi (- 1075)"

section \<open>core/data\_manip.py\<close>

subsection \<open>zero\_norm\<close>

text \<open>
  \<^verbatim>\<open>
  def zero_norm(int_func, _S_inf):
      shift = int_func[0]
      int_func = int_func - shift
      return int_func
  \<close>
  Reading element 0 of an empty array raises IndexError. The second argument is any
  Python object, so its type is left open.
\<close>

definition zero_norm :: "real list \<Rightarrow> 's \<Rightarrow> py_error + real list" where
  "zero_norm int_func S_inf =
     (case int_func of
        [] \<Rightarrow> Inl IndexError
      | shift # _ \<Rightarrow> Inr (map (\<lambda>v. v - shift) int_func))"

subsection \<open>smooth\_data\<close>

text \<open>
  \<^verbatim>\<open>
  def smooth_data(data, method='savitzky-golay', window_length=31, poly_order=3):
      if method == 'savitzky-golay':
          return savgol_filter(data, window_length, poly_order)
  \<close>
  \<open>savgol_filter\<close> is scipy's; it is a parameter of the model and may raise. The
  parameter \<open>method\<close> is written \<open>meth\<close>. An argument
  the caller leaves out is \<open>None\<close> and takes the default of the signature. The result
  \<open>Inr None\<close> is Python's \<open>None\<close>, returned when the function body falls off its end.
\<close>

type_synonym savgol = "real list \<Rightarrow> int \<Rightarrow> int \<Rightarrow> py_error + real list"

definition smooth_data ::
  "savgol \<Rightarrow> real list \<Rightarrow> string option \<Rightarrow> int option \<Rightarrow> int option
     \<Rightarrow> py_error + real list option" where
  "smooth_data savgol_filter data meth window_length poly_order =
     (let m = (case meth of None \<Rightarrow> ''savitzky-golay'' | Some s \<Rightarrow> s);
          wl = (case window_length of None \<Rightarrow> 31 | Some w \<Rightarrow> w);
          po = (case poly_order of None \<Rightarrow> 3 | Some p \<Rightarrow> p)
      in if m = ''savitzky-golay''
         then (case savgol_filter data wl po of
                 Inl e \<Rightarrow> Inl e
               | Inr r \<Rightarrow> Inr (Some r))
         else Inr None)"

section \<open>core/core.py, as the specification describes it\<close>

text \<open>
  The module \<open>core.core\<close> (the structure factor, the transforms, the modification
  functions and the Eggert refinement) is called by the user interface but is not among
  the sources. The two definitions of this section follow the specification's text.
\<close>

subsection \<open>The cosine-window modification function\<close>

text \<open>
  Modelled from the spec: the cosine-window branch of \<open>core.get_mod_func\<close>, which is
  missing from the sources. The specification (section 4.2) gives it as 1 for Q below
  the window-start value and a half-cosine taper to 0 between window-start and Qmax for
  Q at or above it, Qmax being the maximum Q present, and as the constant 1 when
  window-start is not below Qmax. The half-cosine taper from 1 at window-start to 0 at
  Qmax is \<open>(1 + cos (pi * (Q - window_start) / (Qmax - window_start))) / 2\<close>.
\<close>

definition cosine_window :: "real \<Rightarrow> real \<Rightarrow> real \<Rightarrow> real" where
  "cosine_window q_max window_start q =
     (if q < window_start \<or> q_max \<le> window_start then 1
      else (1 + cos (pi * (q - window_start) / (q_max - window_start))) / 2)"

text \<open>
  Modelled from the spec: \<open>modification_function(Q, 'cosine-window', window_start)\<close>,
  the damping sequence aligned with the Q sequence.
\<close>

definition cosine_window_func :: "real list \<Rightarrow> real \<Rightarrow> real list" where
  "cosine_window_func Q window_start = map (cosine_window (Max (set Q)) window_start) Q"

subsection \<open>The Eggert refinement\<close>

text \<open>
  Modelled from the spec: \<open>core.calc_impr_interference_func\<close>, which is missing from
  the sources, as the state machine of section 4.4 of the specification. Initialise:
  compute i(Q) from the input intensity. Iterate exactly \<open>n_iter\<close> times: transform
  the current i(Q) to g(r), measure the violation below \<open>r_min\<close>, back-transform it to
  a correction in Q-space, subtract the correction from i(Q). Finalise: chi-squared is
  the integral of the squared deviation below \<open>r_min\<close> of the residual violation. The
  transforms, the measure of the violation and the integral are parameters; the loop
  carries the current i(Q) and the number of loop bodies executed so far.
\<close>

record eggert_ops =
  initialise :: "real list \<Rightarrow> real list"
  to_r_space :: "real list \<Rightarrow> real list"
  violation :: "real list \<Rightarrow> real list"
  back_transform :: "real list \<Rightarrow> real list"
  squared_deviation :: "real list \<Rightarrow> real"

record eggert_result =
  refined :: "real list"
  chi_squared :: real
  iterations :: nat

definition chi_squared_of :: "eggert_ops \<Rightarrow> real list \<Rightarrow> real" where
  "chi_squared_of ops i_q = squared_deviation ops (violation ops (to_r_space ops i_q))"

definition eggert_step :: "eggert_ops \<Rightarrow> real list \<Rightarrow> real list" where
  "eggert_step ops i_q =
     map2 (\<lambda>v corr. v - corr) i_q (back_transform ops (violation ops (to_r_space ops i_q)))"

fun eggert_loop :: "eggert_ops \<Rightarrow> nat \<Rightarrow> real list \<times> nat \<Rightarrow> real list \<times> nat" where
  "eggert_loop ops 0 s = s"
| "eggert_loop ops (Suc n) (i_q, k) = eggert_loop ops n (eggert_step ops i_q, Suc k)"

definition eggert_refine :: "eggert_ops \<Rightarrow> nat \<Rightarrow> real list \<Rightarrow> eggert_result" where
  "eggert_refine ops n_iter intensity =
     (case eggert_loop ops n_iter (initialise ops intensity, 0) of
        (i_q, k) \<Rightarrow> \<lparr>refined = i_q, chi_squared = chi_squared_of ops i_q, iterations = k\<rparr>)"

section \<open>gui/optim\_ui.py\<close>

subsection \<open>CompositionGroupBox.get\_composition\_dict\<close>

text \<open>
  \<^verbatim>\<open>
  def get_composition_dict(self):
      _composition_dict = {}
      _key_list = list(CompositionGroupBox._element_dict.keys())
      _val_list = list(CompositionGroupBox._element_dict.values())
      for _row_index in range(self.composition_table.rowCount()):
          _Z = np.int(self.composition_table.item(_row_index, 1).text())
          _charge = np.int(self.composition_table.item(_row_index, 2).text())
          _n = np.float(self.composition_table.item(_row_index, 3).text())
          _key = str(_key_list[_val_list.index(_Z)])
          _dict_entry = {_key: [_Z, _charge, _n]}
          _composition_dict.update(_dict_entry)
      _n_total = sum([_composition_dict[_el][2] for _el in _composition_dict])
      for _el in _composition_dict:
          _composition_dict[_el][2] /= _n_total
          _composition_dict[_el] = tuple(_composition_dict[_el])
      return _composition_dict
  \<close>
  The periodic table \<open>_element_dict\<close> is loaded from a data file that is not part of the
  sources: it is a parameter, a dictionary in insertion order from element symbol to
  atomic number. A table cell holds text; the model holds the number the text denotes,
  \<open>None\<close> when \<open>np.int\<close> or \<open>np.float\<close> raises ValueError on it, and \<open>np.float\<close> rounds
  the number to a float. \<open>list.index\<close> raises ValueError for a value that is not in the
  list. The amounts are Python floats: their total is the float sum, every proportion
  the float quotient, and dividing a Python float by zero raises ZeroDivisionError.
  The composition is a dictionary in insertion order, where \<open>update\<close> replaces the
  value of a key that is already present.
\<close>

type_synonym element_dict = "(string \<times> int) list"

type_synonym composition = "(string \<times> int \<times> int \<times> real) list"

record table_row =
  Z_cell :: "int option"
  charge_cell :: "int option"
  n_cell :: "real option"

fun list_index :: "'a list \<Rightarrow> 'a \<Rightarrow> nat option" where
  "list_index [] v = None"
| "list_index (x # xs) v = (if x = v then Some 0 else map_option Suc (list_index xs v))"

fun composition_rows ::
  "element_dict \<Rightarrow> table_row list \<Rightarrow> composition \<Rightarrow> py_error + composition" where
  "composition_rows ed [] d = Inr d"
| "composition_rows ed (r # rs) d =
     (case Z_cell r of None \<Rightarrow> Inl ValueError | Some Z \<Rightarrow>
     (case charge_cell r of None \<Rightarrow> Inl ValueError | Some charge \<Rightarrow>
     (case n_cell r of None \<Rightarrow> Inl ValueError | Some n \<Rightarrow>
     (case list_index (map snd ed) Z of None \<Rightarrow> Inl ValueError | Some i \<Rightarrow>
        composition_rows ed rs
          (AList.update (fst (ed ! i)) (Z, charge, py_float n) d)))))"

definition proportion :: "string \<times> int \<times> int \<times> real \<Rightarrow> real" where
  "proportion e = snd (snd (snd e))"

definition get_composition_dict ::
  "element_dict \<Rightarrow> table_row list \<Rightarrow> py_error + composition" where
  "get_composition_dict ed rows =
     (case composition_rows ed rows [] of
        Inl e \<Rightarrow> Inl e
      | Inr d \<Rightarrow>
          (let n_total = float_sum (map proportion d)
           in if d \<noteq> [] \<and> n_total = 0 then Inl ZeroDivisionError
              else Inr (map (\<lambda>(el, Z, charge, n).
                              (el, Z, charge, float_div n n_total)) d)))"

text \<open>
  A row that \<open>get_composition_dict\<close> reads without an exception: its three cells
  convert, and its atomic number is one of the periodic table.
\<close>

definition readable_row :: "element_dict \<Rightarrow> table_row \<Rightarrow> bool" where
  "readable_row ed r =
     (case (Z_cell r, charge_cell r, n_cell r) of
        (Some Z, Some c, Some n) \<Rightarrow> Z \<in> snd ` set ed
      | _ \<Rightarrow> False)"

subsection \<open>OptimUI.plot\_data: the Q-range cuts\<close>

text \<open>
  \<^verbatim>\<open>
  qmax_cut = (self.optim_config_widget.data_options_gb.qmax_check.isChecked()
              and self.optim_config_widget.data_options_gb.qmax_input.text())
  qmin_cut = (self.optim_config_widget.data_options_gb.qmin_check.isChecked()
              and self.optim_config_widget.data_options_gb.qmin_input.text())
  if qmax_cut:
      _qmax = np.float(self.optim_config_widget.data_options_gb.qmax_input.text())
      _cut = np.where(self.data['cor_x'] < _qmax)
      self.data['cor_x_cut'] = self.data['cor_x'][_cut]
      self.data['cor_y_cut'] = self.data['cor_y'][_cut]
  else:
      self.data['cor_x_cut'] = self.data['cor_x']
      self.data['cor_y_cut'] = self.data['cor_y']
  if qmin_cut:
      _qmin = np.float(self.optim_config_widget.data_options_gb.qmin_input.text())
      try:
          _fill_val = self.data['cor_y'][np.argmax(self.data['cor_x_cut'] > _qmin)]
          _cut = self.data['cor_y'][np.where(self.data['cor_x_cut'] > _qmin)]
          _padding = np.asarray([_fill_val]*(len(self.data['cor_x_cut']) - len(_cut)))
          self.data['cor_y_cut'] = np.concatenate((_padding, _cut))
      except ValueError:
          pass
  \<close>
  A cutoff is \<open>NoCut\<close> when its box is unchecked or its text is empty, \<open>CutAt v\<close> when
  \<open>np.float\<close> reads \<open>v\<close> from the text, and \<open>BadText\<close> when \<open>np.float\<close> raises ValueError.
  \<open>np.where\<close> of a one-dimensional mask gives the indices where it holds; indexing an
  array with indices raises IndexError when one is out of range; \<open>np.argmax\<close> of a
  boolean array is the index of its first \<open>True\<close>, 0 when there is none, and raises
  ValueError on an empty array. A Python list repeated a negative number of times is
  empty, as \<open>replicate\<close> of a truncated difference is. Note that the q-min cut reads the
  uncut \<open>cor_y\<close> at indices of the q-max-cut \<open>cor_x_cut\<close>.
\<close>

datatype cutoff = NoCut | CutAt real | BadText

definition np_where :: "('a \<Rightarrow> bool) \<Rightarrow> 'a list \<Rightarrow> nat list" where
  "np_where p xs = filter (\<lambda>i. p (xs ! i)) [0..<length xs]"

definition np_take :: "'a list \<Rightarrow> nat list \<Rightarrow> py_error + 'a list" where
  "np_take ys idx =
     (if \<forall>i \<in> set idx. i < length ys then Inr (map ((!) ys) idx) else Inl IndexError)"

definition np_argmax :: "bool list \<Rightarrow> py_error + nat" where
  "np_argmax bs =
     (if bs = [] then Inl ValueError
      else Inr (case list_index bs True of Some i \<Rightarrow> i | None \<Rightarrow> 0))"

definition cut_qmax ::
  "cutoff \<Rightarrow> real list \<Rightarrow> real list \<Rightarrow> py_error + real list \<times> real list" where
  "cut_qmax qmax_cut cor_x cor_y =
     (case qmax_cut of
        BadText \<Rightarrow> Inl ValueError
      | CutAt qmax \<Rightarrow>
          (let idx = np_where (\<lambda>q. q < qmax) cor_x
           in (case np_take cor_x idx of
                 Inl e \<Rightarrow> Inl e
               | Inr cor_x_cut \<Rightarrow>
                   (case np_take cor_y idx of
                      Inl e \<Rightarrow> Inl e
                    | Inr cor_y_cut \<Rightarrow> Inr (cor_x_cut, cor_y_cut))))
      | NoCut \<Rightarrow> Inr (cor_x, cor_y))"

definition qmin_padded :: "real \<Rightarrow> real list \<Rightarrow> real list \<Rightarrow> py_error + real list" where
  "qmin_padded qmin cor_y cor_x_cut =
     (case np_argmax (map (\<lambda>q. qmin < q) cor_x_cut) of
        Inl e \<Rightarrow> Inl e
      | Inr a \<Rightarrow>
          if \<not> a < length cor_y then Inl IndexError
          else
            (let fill_val = cor_y ! a
             in (case np_take cor_y (np_where (\<lambda>q. qmin < q) cor_x_cut) of
                   Inl e \<Rightarrow> Inl e
                 | Inr kept \<Rightarrow>
                     Inr (replicate (length cor_x_cut - length kept) fill_val @ kept))))"

definition cut_qmin ::
  "cutoff \<Rightarrow> real list \<Rightarrow> real list \<Rightarrow> real list \<Rightarrow> py_error + real list" where
  "cut_qmin qmin_cut cor_y cor_x_cut cor_y_cut =
     (case qmin_cut of
        BadText \<Rightarrow> Inl ValueError
      | NoCut \<Rightarrow> Inr cor_y_cut
      | CutAt qmin \<Rightarrow>
          (case qmin_padded qmin cor_y cor_x_cut of
             Inl e \<Rightarrow> (if e = ValueError then Inr cor_y_cut else Inl e)
           | Inr padded \<Rightarrow> Inr padded))"

definition cut_q ::
  "cutoff \<Rightarrow> cutoff \<Rightarrow> real list \<Rightarrow> real list \<Rightarrow> py_error + real list \<times> real list" where
  "cut_q qmax_cut qmin_cut cor_x cor_y =
     (case cut_qmax qmax_cut cor_x cor_y of
        Inl e \<Rightarrow> Inl e
      | Inr (cor_x_cut, cor_y_cut) \<Rightarrow>
          (case cut_qmin qmin_cut cor_y cor_x_cut cor_y_cut of
             Inl e \<Rightarrow> Inl e
           | Inr cor_y_cut' \<Rightarrow> Inr (cor_x_cut, cor_y_cut')))"

text \<open>
  The first intensity at a Q above q-min, of a curve given by its Q values and its
  intensities: the value the padding is meant to repeat. It is \<open>None\<close> when no Q of
  the curve is above q-min.
\<close>

definition first_retained :: "real \<Rightarrow> real list \<Rightarrow> real list \<Rightarrow> real option" where
  "first_retained qmin qs ys = map_option snd (find (\<lambda>(q, y). qmin < q) (zip qs ys))"

subsection \<open>OptimUI: the data dictionary, the widgets and the external calls\<close>

text \<open>
  \<open>OptimUI.data\<close> is a Python dictionary. Its keys that \<open>__init__\<close> creates hold arrays
  (and the name of the modification function); the keys \<open>iq_x\<close>, \<open>window_start\<close>,
  \<open>modification\<close>, \<open>chi_sq\<close> and \<open>refined_rho\<close> are created later, so reading one that is
  absent raises KeyError. \<open>window_start\<close> holds \<open>None\<close> or a float, \<open>modification\<close> the
  number 1 or a curve.
\<close>

datatype win = Win_absent | Win_None | Win real

datatype modification = Mod_absent | Mod_one | Mod_curve "real list"

datatype s_inf = S_scalar real | S_curve "real list"

datatype refine_out = Chi_only real | Refined "real list" real

record data =
  cor_x :: "real list"
  cor_y :: "real list"
  cor_x_cut :: "real list"
  cor_y_cut :: "real list"
  sq_x :: "real list"
  sq_y :: "real list"
  fr_x :: "real list"
  fr_y :: "real list"
  int_func :: "real list"
  impr_int_func :: "real list"
  impr_fr_x :: "real list"
  impr_fr_y :: "real list"
  impr_iq_x :: "real list"
  mod_func :: string
  iq_x :: "real list option"
  window_start :: win
  modification :: modification
  chi_sq :: "real option"
  refined_rho :: "real option"

text \<open>
  \<^verbatim>\<open>
  self.data = {'cor_x': np.asarray([]), 'cor_y': np.asarray([]),
               'cor_x_cut': np.asarray([]), 'cor_y_cut': np.asarray([]),
               'sq_x':  np.asarray([]), 'sq_y':  np.asarray([]),
               'fr_x':  np.asarray([]), 'fr_y':  np.asarray([]),
               'int_func': np.asarray([]), 'impr_int_func': np.asarray([]),
               'impr_fr_x': np.asarray([]), 'impr_fr_y': np.asarray([]),
               'impr_iq_x': np.asarray([]), 'mod_func': 'None'}
  \<close>
\<close>

definition initial_data :: data where
  "initial_data =
     \<lparr>cor_x = [], cor_y = [], cor_x_cut = [], cor_y_cut = [], sq_x = [], sq_y = [],
      fr_x = [], fr_y = [], int_func = [], impr_int_func = [], impr_fr_x = [],
      impr_fr_y = [], impr_iq_x = [], mod_func = ''None'', iq_x = None,
      window_start = Win_absent, modification = Mod_absent, chi_sq = None,
      refined_rho = None\<rparr>"

text \<open>
  What the handlers read from the widgets. A line edit that is converted with
  \<open>np.float\<close> or \<open>np.int\<close> is held as the number read, \<open>None\<close> when the conversion
  raises ValueError; a cutoff combines its check box and its line edit.
\<close>

record widgets =
  qmax_input :: cutoff
  qmin_input :: cutoff
  smooth_data_check :: bool
  window_length_input :: "int option"
  poly_order_input :: "int option"
  mod_func_input :: string
  window_start_input :: "real option"
  al_btn :: bool
  fb_btn :: bool
  density_input :: "real option"
  composition_table :: "table_row list"
  rmin_input :: "real option"
  niter_input :: "int option"
  opt_check :: bool
  lb_input :: "real option"
  ub_input :: "real option"

text \<open>
  The module \<open>core.core\<close> and scipy's \<open>minimize\<close> and \<open>savgol_filter\<close> are not part of
  the sources: the handlers take them as parameters, each free to raise. The ten
  positional arguments the handlers pack for \<open>calc_impr_interference_func\<close> are the
  record \<open>refine_args\<close>; that function returns chi-squared alone or the refined
  interference function with chi-squared. A call of \<open>minimize\<close> is the record of its
  arguments.
\<close>

record refine_args =
  a_q_data :: "real list"
  a_y_data :: "real list"
  a_composition :: composition
  a_r_min :: real
  a_d_pq :: real
  a_n_iter :: int
  a_sq_method :: string
  a_mod_func :: string
  a_window_start :: win
  a_opt_flag :: int

record minimisation_opts =
  disp :: int
  maxiter :: int
  maxfun :: int
  ftol :: real
  gtol :: real

record minimize_call =
  objective :: "real \<Rightarrow> refine_args \<Rightarrow> py_error + refine_out"
  x0 :: real
  bounds :: "(real \<times> real) list"
  args :: refine_args
  options :: minimisation_opts
  solver_method :: string

record opt_result =
  opt_x :: "real list"
  opt_fun :: real

record externals =
  calc_structure_factor ::
    "real list \<Rightarrow> real list \<Rightarrow> composition \<Rightarrow> real \<Rightarrow> string \<Rightarrow> py_error + real list"
  calc_S_inf :: "composition \<Rightarrow> real list \<Rightarrow> py_error + s_inf"
  calc_F_r ::
    "real list \<Rightarrow> real list \<Rightarrow> real \<Rightarrow> string \<Rightarrow> win \<Rightarrow> py_error + real list \<times> real list"
  get_mod_func :: "real list \<Rightarrow> string \<Rightarrow> win \<Rightarrow> py_error + modification"
  calc_impr_interference_func :: "real \<Rightarrow> refine_args \<Rightarrow> py_error + refine_out"
  conv_density :: "real \<Rightarrow> composition \<Rightarrow> py_error + real"
  minimize :: "minimize_call \<Rightarrow> py_error + opt_result"
  savgol_filter :: savgol

datatype gui_event =
    Print_set_limit | Print_polyorder_warning | Print_finding_density
  | Print_refined_density real | Print_chi_sq real | Update_plots
  | Show_density real | Show_mass_density real | Show_chi_sq real
  | Append_log | Results_changed

type_synonym outcome = "py_error + data \<times> gui_event list"

text \<open>
  \<^verbatim>\<open>
  minimisation_options = {'disp': 0,
                          'maxiter': 15000,
                          'maxfun': 15000,
                          'ftol': 2.22e-8,
                          'gtol': 1e-10
                          }
  op_method = 'L-BFGS-B'
  \<close>
  The two float literals are modelled as the decimal fractions they denote.
\<close>

definition minimisation_options :: minimisation_opts where
  "minimisation_options =
     \<lparr>disp = 0, maxiter = 15000, maxfun = 15000, ftol = 222 / 10 ^ 10, gtol = 1 / 10 ^ 10\<rparr>"

definition op_method :: string where
  "op_method = ''L-BFGS-B''"

text \<open>
  \<open>sq_y - _S_inf\<close>, with numpy's broadcasting of a scalar or of an array of length 1;
  two arrays of other, different lengths raise ValueError.
\<close>

definition np_sub :: "real list \<Rightarrow> s_inf \<Rightarrow> py_error + real list" where
  "np_sub a s =
     (case s of
        S_scalar v \<Rightarrow> Inr (map (\<lambda>x. x - v) a)
      | S_curve b \<Rightarrow>
          if length a = length b then Inr (map2 (\<lambda>x y. x - y) a b)
          else if length b = 1 then Inr (map (\<lambda>x. x - b ! 0) a)
          else if length a = 1 then Inr (map (\<lambda>y. a ! 0 - y) b)
          else Inl ValueError)"

subsection \<open>OptimUI.plot\_data and OptimUI.smooth\_check\_toggled\<close>

text \<open>
  \<open>plot_data\<close> clears the derived curves, applies the Q-range cuts, sets
  \<open>modification\<close> to 1, and then smooths (when the box is checked) or redraws.
  \<open>smooth_check_toggled\<close>, with the box checked, returns early when there is no data,
  when a parameter does not convert or when the polynomial order is not below the
  window length, and otherwise replaces \<open>cor_y_cut\<close> by \<open>data_manip.smooth_data\<close> of it
  (called with the default method, so the result is never \<open>None\<close>). With the box
  unchecked it calls \<open>plot_data\<close> and redraws. Enabling and disabling widgets is not
  modelled. A handler that raises returns the exception; the dictionary it leaves
  behind is not modelled.
\<close>

definition plot_data_cleared :: "data \<Rightarrow> data" where
  "plot_data_cleared d =
     d\<lparr>iq_x := Some [], impr_iq_x := [], sq_y := [], fr_x := [], fr_y := [],
       int_func := [], impr_int_func := [], impr_fr_x := [], impr_fr_y := [],
       cor_x_cut := [], cor_y_cut := []\<rparr>"

definition smooth_checked :: "externals \<Rightarrow> widgets \<Rightarrow> data \<Rightarrow> outcome" where
  "smooth_checked c w d =
     (if cor_y_cut d = [] then Inr (d, [])
      else
        (case window_length_input w of None \<Rightarrow> Inr (d, []) | Some window_length \<Rightarrow>
        (case poly_order_input w of None \<Rightarrow> Inr (d, []) | Some poly_order \<Rightarrow>
           if poly_order \<ge> window_length then Inr (d, [Print_polyorder_warning])
           else
             (case smooth_data (savgol_filter c) (cor_y_cut d) None
                     (Some window_length) (Some poly_order) of
                Inl e \<Rightarrow> Inl e
              | Inr None \<Rightarrow> Inl TypeError
              | Inr (Some smoothed) \<Rightarrow> Inr (d\<lparr>cor_y_cut := smoothed\<rparr>, [Update_plots])))))"

definition plot_data :: "externals \<Rightarrow> widgets \<Rightarrow> data \<Rightarrow> outcome" where
  "plot_data c w d =
     (let d0 = plot_data_cleared d
      in (case cut_q (qmax_input w) (qmin_input w) (cor_x d0) (cor_y d0) of
            Inl e \<Rightarrow> Inl e
          | Inr (x_cut, y_cut) \<Rightarrow>
              (let d1 = d0\<lparr>cor_x_cut := x_cut, cor_y_cut := y_cut, modification := Mod_one\<rparr>
               in if smooth_data_check w then smooth_checked c w d1
                  else Inr (d1, [Update_plots]))))"

definition smooth_check_toggled :: "externals \<Rightarrow> widgets \<Rightarrow> data \<Rightarrow> outcome" where
  "smooth_check_toggled c w d =
     (if smooth_data_check w then smooth_checked c w d
      else
        (case plot_data c w d of
           Inl e \<Rightarrow> Inl e
         | Inr (d', ev) \<Rightarrow> Inr (d', ev @ [Update_plots])))"

subsection \<open>OptimUI.on\_click\_calc\_sq\<close>

text \<open>
  \<^verbatim>\<open>
  def on_click_calc_sq(self):
      if not self.data['cor_x_cut'].size:
          return
      _composition = self.optim_config_widget.composition_gb.get_composition_dict()
      if not _composition:
          return
      self.data['impr_iq_x'] = np.asarray([])
      self.data['impr_fr_x'] = np.asarray([])
      self.data['impr_fr_y'] = np.asarray([])
      self.data['impr_int_func'] = np.asarray([])
      self.data['mod_func'] = ...mod_func_input.currentText()
      if self.data['mod_func'] == 'Cosine-window':
          try:
              self.data['window_start'] = np.float(...window_start_input.text())
          except ValueError:
              print('Please set limit for Cosine-window function')
              return
      else:
          self.data['window_start']=None
      if ...al_btn.isChecked():
          _method = 'ashcroft-langreth'
      elif ...fb_btn.isChecked():
          _method='faber-ziman'
      _rho_0 = np.float(...density_input.text())
      self.data['iq_x'] = self.data['cor_x_cut']
      self.data['sq_y'] = core.calc_structure_factor(self.data['cor_x_cut'],
                              self.data['cor_y_cut'], _composition, _rho_0, method=_method)
      _S_inf = core.calc_S_inf(_composition, self.data['cor_x_cut'])
      self.data['int_func'] = self.data['sq_y'] - _S_inf
      self.data['fr_x'], self.data['fr_y'] = core.calc_F_r(self.data['iq_x'],
          self.data['int_func'], _rho_0, mod_func=self.data['mod_func'],
          window_start=self.data['window_start'])
      self.data['modification'] = core.get_mod_func(self.data['iq_x'],
          self.data['mod_func'], self.data['window_start'])
      self.optim_plot_widget.update_plots(self.data)
  \<close>
  With neither radio button checked \<open>_method\<close> is unbound where it is first used.
\<close>

definition sq_method :: "widgets \<Rightarrow> string option" where
  "sq_method w =
     (if al_btn w then Some ''ashcroft-langreth''
      else if fb_btn w then Some ''faber-ziman''
      else None)"

definition calc_sq_compute :: "externals \<Rightarrow> widgets \<Rightarrow> composition \<Rightarrow> data \<Rightarrow> outcome" where
  "calc_sq_compute c w compo d =
     (case density_input w of None \<Rightarrow> Inl ValueError | Some rho_0 \<Rightarrow>
     (case sq_method w of None \<Rightarrow> Inl UnboundLocalError | Some m \<Rightarrow>
     (case calc_structure_factor c (cor_x_cut d) (cor_y_cut d) compo rho_0 m of
        Inl e \<Rightarrow> Inl e | Inr sq \<Rightarrow>
     (case calc_S_inf c compo (cor_x_cut d) of Inl e \<Rightarrow> Inl e | Inr S_inf \<Rightarrow>
     (case np_sub sq S_inf of Inl e \<Rightarrow> Inl e | Inr i_q \<Rightarrow>
     (case calc_F_r c (cor_x_cut d) i_q rho_0 (mod_func d) (window_start d) of
        Inl e \<Rightarrow> Inl e | Inr (r, f_r) \<Rightarrow>
     (case get_mod_func c (cor_x_cut d) (mod_func d) (window_start d) of
        Inl e \<Rightarrow> Inl e | Inr m_q \<Rightarrow>
        Inr (d\<lparr>iq_x := Some (cor_x_cut d), sq_y := sq, int_func := i_q, fr_x := r,
                fr_y := f_r, modification := m_q\<rparr>, [Update_plots]))))))))"

definition on_click_calc_sq ::
  "externals \<Rightarrow> element_dict \<Rightarrow> widgets \<Rightarrow> data \<Rightarrow> outcome" where
  "on_click_calc_sq c ed w d =
     (if cor_x_cut d = [] then Inr (d, [])
      else
        (case get_composition_dict ed (composition_table w) of
           Inl e \<Rightarrow> Inl e
         | Inr compo \<Rightarrow>
             if compo = [] then Inr (d, [])
             else
               (let d1 = d\<lparr>impr_iq_x := [], impr_fr_x := [], impr_fr_y := [],
                           impr_int_func := [], mod_func := mod_func_input w\<rparr>
                in if mod_func d1 = ''Cosine-window''
                   then
                     (case window_start_input w of
                        None \<Rightarrow> Inr (d1, [Print_set_limit])
                      | Some v \<Rightarrow> calc_sq_compute c w compo (d1\<lparr>window_start := Win v\<rparr>))
                   else calc_sq_compute c w compo (d1\<lparr>window_start := Win_None\<rparr>))))"

subsection \<open>OptimUI.on\_click\_refine\<close>

text \<open>
  \<^verbatim>\<open>
  def on_click_refine(self):
      try:
          del self.data['chi_sq']
          del self.data['refined_rho']
      except KeyError:
          pass
      if not self.data['int_func'].size:
          return
      self.data['mod_func'] = ...mod_func_input.currentText()
      if self.data['mod_func'] == 'Cosine-window':
          try:
              self.data['window_start'] = np.float(...window_start_input.text())
          except ValueError:
              print('Please set limit for Cosine-window function')
              return
      _composition = self.optim_config_widget.composition_gb.get_composition_dict()
      if not _composition:
          return
      (the S(Q) method as above)
      _rho_0 = np.float(...density_input.text())
      _r_min = np.float(...rmin_input.text())
      _d_pq = 2.9
      _n_iter = np.int(...niter_input.text())
      if ...opt_check.isChecked():
          try:
              _lb = np.float(...lb_input.text())
              _ub = np.float(...ub_input.text())
          except ValueError:
              return
          _bounds = ((_lb, _ub),)
          _args = (self.data['cor_x_cut'], self.data['cor_y_cut'],
                   _composition, _r_min, _d_pq, _n_iter, _method,
                   self.data['mod_func'], self.data['window_start'], 1)
          _opt_result = minimize(core.calc_impr_interference_func,
                                 _rho_0, bounds=_bounds, args=_args,
                                 options=self.minimisation_options,
                                 method=self.op_method)
          self.data['refined_rho'] = _opt_result.x[0]
          _rho_temp = self.data['refined_rho']
          ...density_output.setText('{:.4e}'.format(self.data['refined_rho']))
          _mass_density = core.conv_density(_rho_temp, _composition)
          ...mass_density.setText('{0:.3f}'.format(_mass_density))
      else:
          _rho_temp = _rho_0
      _args = (self.data['cor_x_cut'], self.data['int_func'],
               _composition, _r_min, _d_pq, _n_iter, _method,
               self.data['mod_func'], self.data['window_start'], 0)
      self.data['impr_int_func'], self.data['chi_sq'] = \
          core.calc_impr_interference_func(_rho_temp, *_args)
      ...chi_sq_output.setText('{:.4e}'.format(self.data['chi_sq']))
      self.data['impr_fr_x'], self.data['impr_fr_y'] = core.calc_F_r(self.data['iq_x'],
          self.data['impr_int_func'], _rho_temp, mod_func = self.data['mod_func'],
          window_start=self.data['window_start'])
      self.data['impr_iq_x'] = self.data['iq_x']
      (redraw, append to refinement.log, emit results_changed)
  \<close>
  Deleting \<open>chi_sq\<close> when it is absent raises the KeyError that is caught, before
  \<open>refined_rho\<close> is touched. Unpacking a result that is chi-squared alone raises
  TypeError. The text written to the log file and to the console is not modelled
  beyond the event that it was written.
\<close>

definition refine_cleared :: "data \<Rightarrow> data" where
  "refine_cleared d =
     (case chi_sq d of
        None \<Rightarrow> d
      | Some v \<Rightarrow> d\<lparr>chi_sq := None, refined_rho := None\<rparr>)"

definition density_call ::
  "externals \<Rightarrow> real \<Rightarrow> real \<Rightarrow> real \<Rightarrow> refine_args \<Rightarrow> minimize_call" where
  "density_call c rho_0 lb ub a =
     \<lparr>objective = calc_impr_interference_func c, x0 = rho_0, bounds = [(lb, ub)],
      args = a, options = minimisation_options, solver_method = op_method\<rparr>"

definition refine_finish ::
  "externals \<Rightarrow> widgets \<Rightarrow> composition \<Rightarrow> data \<Rightarrow> real \<Rightarrow> real \<Rightarrow> int
     \<Rightarrow> gui_event list \<Rightarrow> outcome" where
  "refine_finish c w compo d rho_temp r_min n_iter ev =
     (case sq_method w of None \<Rightarrow> Inl UnboundLocalError | Some m \<Rightarrow>
     (case window_start d of Win_absent \<Rightarrow> Inl KeyError | ws \<Rightarrow>
     (case calc_impr_interference_func c rho_temp
             \<lparr>a_q_data = cor_x_cut d, a_y_data = int_func d, a_composition = compo,
              a_r_min = r_min, a_d_pq = 29 / 10, a_n_iter = n_iter, a_sq_method = m,
              a_mod_func = mod_func d, a_window_start = ws, a_opt_flag = 0\<rparr> of
        Inl e \<Rightarrow> Inl e
      | Inr (Chi_only v) \<Rightarrow> Inl TypeError
      | Inr (Refined impr chi) \<Rightarrow>
     (case iq_x d of None \<Rightarrow> Inl KeyError | Some q \<Rightarrow>
     (case calc_F_r c q impr rho_temp (mod_func d) ws of
        Inl e \<Rightarrow> Inl e
      | Inr (r, f_r) \<Rightarrow>
          Inr (d\<lparr>impr_int_func := impr, chi_sq := Some chi, impr_fr_x := r,
                  impr_fr_y := f_r, impr_iq_x := q\<rparr>,
               ev @ [Show_chi_sq chi, Update_plots, Append_log, Results_changed]))))))"

definition refine_optimise ::
  "externals \<Rightarrow> widgets \<Rightarrow> composition \<Rightarrow> data \<Rightarrow> real \<Rightarrow> real \<Rightarrow> int
     \<Rightarrow> real \<Rightarrow> real \<Rightarrow> outcome" where
  "refine_optimise c w compo d rho_0 r_min n_iter lb ub =
     (case sq_method w of None \<Rightarrow> Inl UnboundLocalError | Some m \<Rightarrow>
     (case window_start d of Win_absent \<Rightarrow> Inl KeyError | ws \<Rightarrow>
     (case minimize c
             (density_call c rho_0 lb ub
                \<lparr>a_q_data = cor_x_cut d, a_y_data = cor_y_cut d, a_composition = compo,
                 a_r_min = r_min, a_d_pq = 29 / 10, a_n_iter = n_iter, a_sq_method = m,
                 a_mod_func = mod_func d, a_window_start = ws, a_opt_flag = 1\<rparr>) of
        Inl e \<Rightarrow> Inl e
      | Inr opt_result \<Rightarrow>
     (case opt_x opt_result of [] \<Rightarrow> Inl IndexError | rho # rest \<Rightarrow>
     (case conv_density c rho compo of
        Inl e \<Rightarrow> Inl e
      | Inr mass_density \<Rightarrow>
          refine_finish c w compo (d\<lparr>refined_rho := Some rho\<rparr>) rho r_min n_iter
            [Print_finding_density, Print_refined_density rho,
             Print_chi_sq (opt_fun opt_result), Show_density rho,
             Show_mass_density mass_density])))))"

definition refine_run :: "externals \<Rightarrow> widgets \<Rightarrow> composition \<Rightarrow> data \<Rightarrow> outcome" where
  "refine_run c w compo d =
     (case density_input w of None \<Rightarrow> Inl ValueError | Some rho_0 \<Rightarrow>
     (case rmin_input w of None \<Rightarrow> Inl ValueError | Some r_min \<Rightarrow>
     (case niter_input w of None \<Rightarrow> Inl ValueError | Some n_iter \<Rightarrow>
        if opt_check w
        then
          (case lb_input w of None \<Rightarrow> Inr (d, []) | Some lb \<Rightarrow>
          (case ub_input w of None \<Rightarrow> Inr (d, []) | Some ub \<Rightarrow>
             refine_optimise c w compo d rho_0 r_min n_iter lb ub))
        else refine_finish c w compo d rho_0 r_min n_iter [])))"

definition on_click_refine ::
  "externals \<Rightarrow> element_dict \<Rightarrow> widgets \<Rightarrow> data \<Rightarrow> outcome" where
  "on_click_refine c ed w d =
     (let d0 = refine_cleared d
      in if int_func d0 = [] then Inr (d0, [])
         else
           (let d1 = d0\<lparr>mod_func := mod_func_input w\<rparr>
            in if mod_func d1 = ''Cosine-window'' \<and> window_start_input w = None
               then Inr (d1, [Print_set_limit])
               else
                 (let d2 = (if mod_func d1 = ''Cosine-window''
                            then (case window_start_input w of
                                    None \<Rightarrow> d1
                                  | Some v \<Rightarrow> d1\<lparr>window_start := Win v\<rparr>)
                            else d1)
                  in (case get_composition_dict ed (composition_table w) of
                        Inl e \<Rightarrow> Inl e
                      | Inr compo \<Rightarrow>
                          if compo = [] then Inr (d2, [])
                          else refine_run c w compo d2))))"

subsection \<open>Returning without a result\<close>

text \<open>
  A handler returns silently, relative to the dictionary \<open>d\<close> it started from, when it
  raises nothing, produces no new result (S(Q), i(Q), F(r), the refined curves,
  chi-squared and the refined density are what they were, or were cleared), and does
  nothing a user sees but, at most, print the hint to set the cosine-window limit.
  The dictionary is consistent when it has no interference function unless it has
  cut data.
\<close>

definition no_new_results :: "data \<Rightarrow> data \<Rightarrow> bool" where
  "no_new_results d d' =
     (sq_y d' = sq_y d \<and> int_func d' = int_func d \<and> fr_x d' = fr_x d \<and> fr_y d' = fr_y d
      \<and> (impr_int_func d' = impr_int_func d \<or> impr_int_func d' = [])
      \<and> (impr_fr_x d' = impr_fr_x d \<or> impr_fr_x d' = [])
      \<and> (impr_fr_y d' = impr_fr_y d \<or> impr_fr_y d' = [])
      \<and> (chi_sq d' = chi_sq d \<or> chi_sq d' = None)
      \<and> (refined_rho d' = refined_rho d \<or> refined_rho d' = None))"

definition silent_return :: "outcome \<Rightarrow> data \<Rightarrow> bool" where
  "silent_return r d =
     (case r of
        Inl e \<Rightarrow> False
      | Inr (d', ev) \<Rightarrow> no_new_results d d' \<and> (ev = [] \<or> ev = [Print_set_limit]))"

definition data_consistent :: "data \<Rightarrow> bool" where
  "data_consistent d = (cor_x_cut d = [] \<longrightarrow> int_func d = [])"

subsection \<open>Sample inputs\<close>

text \<open>
  Concrete inputs on which the theorems below are evaluated: externals that all raise,
  externals that answer, a solver that refuses every call but the one the density
  refinement makes, a filled-in configuration and a dictionary after a calculation.
\<close>

definition no_externals :: externals where
  "no_externals =
     \<lparr>calc_structure_factor = (\<lambda>q i compo rho m. Inl OtherError),
      calc_S_inf = (\<lambda>compo q. Inl OtherError),
      calc_F_r = (\<lambda>q i rho m ws. Inl OtherError),
      get_mod_func = (\<lambda>q m ws. Inl OtherError),
      calc_impr_interference_func = (\<lambda>rho a. Inl OtherError),
      conv_density = (\<lambda>rho compo. Inl OtherError),
      minimize = (\<lambda>call. Inl OtherError),
      savgol_filter = (\<lambda>y wl po. Inl OtherError)\<rparr>"

definition sample_widgets :: widgets where
  "sample_widgets =
     \<lparr>qmax_input = NoCut, qmin_input = NoCut, smooth_data_check = False,
      window_length_input = Some 31, poly_order_input = Some 3,
      mod_func_input = ''Cosine-window'', window_start_input = None,
      al_btn = True, fb_btn = False, density_input = Some 1,
      composition_table = [\<lparr>Z_cell = Some 31, charge_cell = Some 0, n_cell = Some 1\<rparr>],
      rmin_input = Some 2, niter_input = Some 5, opt_check = True,
      lb_input = Some (1 / 100), ub_input = Some 1\<rparr>"

definition sample_data :: data where
  "sample_data =
     initial_data\<lparr>cor_x := [1, 2], cor_y := [10, 20], cor_x_cut := [1, 2],
       cor_y_cut := [10, 20], int_func := [3, 4], iq_x := Some [1, 2],
       window_start := Win_None\<rparr>"

definition echo_externals :: externals where
  "echo_externals =
     no_externals
       \<lparr>calc_impr_interference_func :=
          (\<lambda>rho a. if a_opt_flag a = 1 then Inr (Chi_only (rho * rho))
                    else Inr (Refined (a_y_data a) (rho * rho))),
        calc_F_r := (\<lambda>q i rho m ws. Inr (q, i)),
        conv_density := (\<lambda>rho compo. Inr rho),
        minimize := (\<lambda>call. Inr \<lparr>opt_x = [fst (bounds call ! 0)], opt_fun = 0\<rparr>)\<rparr>"

definition strict_solver :: "minimize_call \<Rightarrow> py_error + opt_result" where
  "strict_solver call =
     (if maxiter (options call) = 15000 \<and> maxfun (options call) = 15000
         \<and> ftol (options call) = 222 / 10 ^ 10 \<and> gtol (options call) = 1 / 10 ^ 10
         \<and> solver_method call = ''L-BFGS-B'' \<and> length (bounds call) = 1
         \<and> a_opt_flag (args call) = 1
      then Inr \<lparr>opt_x = [fst (bounds call ! 0)], opt_fun = 0\<rparr>
      else Inl ValueError)"

section \<open>Theorems\<close>

subsection \<open>zero\_norm\<close>

text \<open>
  Claim C9. For every non-empty input array \<open>arr\<close>, \<open>zero_norm arr S_inf\<close> returns
  \<open>arr\<close> minus its own first element, so the first element of the result is 0,
  and the \<open>S_inf\<close> argument has no effect on the returned value: a call with any other
  second argument, of any type, returns the same array.
\<close>

theorem zero_norm_shifts_to_zero:
  assumes "arr \<noteq> []"
  shows "\<exists>r. zero_norm arr (S_inf :: 's) = Inr r
           \<and> r = map (\<lambda>v. v - arr ! 0) arr
           \<and> length r = length arr
           \<and> r ! 0 = 0
           \<and> zero_norm arr (S_inf' :: 't) = Inr r"
proof -
  from assms obtain x xs where c: "arr = x # xs"
    by (cases arr) auto
  show ?thesis
    unfolding c zero_norm_def by simp
qed

theorem zero_norm_shifts_to_zero_witness:
  "zero_norm [3, 5, 4] (7 :: real) = Inr [0, 2, 1]
     \<and> zero_norm [3, 5, 4] ''any'' = Inr [0, 2, 1]"
proof -
  have ne: "[3, 5, 4 :: real] \<noteq> []" by simp
  from zero_norm_shifts_to_zero [OF ne, where S_inf = "7 :: real" and S_inf' = "''any''"]
  show ?thesis by simp
qed

subsection \<open>smooth\_data\<close>

text \<open>
  Claim C10. \<open>smooth_data\<close> returns what the Savitzky-Golay filter returns (its
  filtered data, or the exception it raises) when the method is \<open>'savitzky-golay'\<close>,
  given or by default, with the defaults 31 and 3 for a window length and a polynomial
  order left out; for every other method string it returns the value \<open>None\<close>: it raises
  nothing and never calls the filter, whatever the filter is.
\<close>

theorem smooth_data_only_savgol:
  "(meth = None \<or> meth = Some ''savitzky-golay'' \<longrightarrow>
      smooth_data sg data meth wl po =
        map_sum id Some
          (sg data (case wl of None \<Rightarrow> 31 | Some w \<Rightarrow> w)
                   (case po of None \<Rightarrow> 3 | Some p \<Rightarrow> p)))
   \<and> (\<forall>s. s \<noteq> ''savitzky-golay'' \<longrightarrow>
         smooth_data sg data (Some s) wl po = Inr None
         \<and> smooth_data sg data (Some s) wl po = smooth_data sg' data (Some s) wl po)"
  by (auto simp: smooth_data_def Let_def split: sum.splits option.splits)

theorem smooth_data_only_savgol_witness:
  "smooth_data (\<lambda>d w p. Inr (rev d)) [1, 2] None None None = Inr (Some [2, 1])
   \<and> smooth_data (\<lambda>d w p. Inl ValueError) [1, 2] (Some ''savitzky-golay'') (Some 4) None
       = Inl ValueError
   \<and> smooth_data (\<lambda>d w p. Inl ValueError) [1, 2] (Some ''median'') (Some 4) None
       = Inr None"
proof -
  have a: "''median'' \<noteq> ''savitzky-golay''" by simp
  from smooth_data_only_savgol
         [where sg = "\<lambda>d w p. Inr (rev d)" and data = "[1, 2]" and meth = None
            and wl = None and po = None]
       smooth_data_only_savgol
         [where sg = "\<lambda>d w p. Inl ValueError" and data = "[1, 2]"
            and meth = "Some ''savitzky-golay''" and wl = "Some 4" and po = None]
       a
  show ?thesis by simp
qed

subsection \<open>Float rounding\<close>

lemma round_half_even_err: "\<bar>of_int (round_half_even r) - r\<bar> \<le> 1 / 2"
  unfolding round_half_even_def Let_def by (auto simp: abs_if) linarith+

lemma round_half_even_ge: "of_int k \<le> r \<Longrightarrow> k \<le> round_half_even r"
proof -
  assume "of_int k \<le> r"
  then have "k \<le> \<lfloor>r\<rfloor>" by (simp add: le_floor_iff)
  then show ?thesis unfolding round_half_even_def Let_def by auto
qed

lemma round_half_even_of_int: "round_half_even (of_int n) = n"
  by (simp add: round_half_even_def)


lemma powi_pos: "0 < (2 :: real) powi e"
  by simp

lemma log2_powi: "log 2 (2 powi e) = real_of_int e"
proof -
  have "(2 :: real) powi e = 2 powr real_of_int e"
    by (simp add: powr_real_of_int')
  then show ?thesis by simp
qed

lemma floor_log_bounds:
  assumes "0 < x"
  shows "2 powi \<lfloor>log 2 x\<rfloor> \<le> x" and "x < 2 powi (\<lfloor>log 2 x\<rfloor> + 1)"
proof -
  have x: "2 powr log 2 x = x" using assms by simp
  have "2 powr real_of_int \<lfloor>log 2 x\<rfloor> \<le> 2 powr log 2 x"
    by (intro powr_mono) simp_all
  then show "2 powi \<lfloor>log 2 x\<rfloor> \<le> x"
    using x by (simp add: powr_real_of_int')
  have "log 2 x < real_of_int (\<lfloor>log 2 x\<rfloor> + 1)" by linarith
  then have "2 powr log 2 x < 2 powr real_of_int (\<lfloor>log 2 x\<rfloor> + 1)"
    by (intro powr_less_mono) simp_all
  moreover have "(2 :: real) powr real_of_int (\<lfloor>log 2 x\<rfloor> + 1) = 2 powi (\<lfloor>log 2 x\<rfloor> + 1)"
    by (rule powr_real_of_int') simp_all
  ultimately show "x < 2 powi (\<lfloor>log 2 x\<rfloor> + 1)"
    using x by (simp only:)
qed

lemma floor_log_unique:
  assumes "2 powi e \<le> x" and "x < 2 powi (e + 1)"
  shows "\<lfloor>log 2 x\<rfloor> = e"
proof -
  have pos: "0 < x" using assms(1) powi_pos [of e] by linarith
  have "log 2 (2 powi e) \<le> log 2 x"
    using assms(1) pos by (subst log_le_cancel_iff) simp_all
  then have lo: "real_of_int e \<le> log 2 x" by (simp add: log2_powi)
  have "log 2 x < log 2 (2 powi (e + 1))"
    using assms(2) pos by (subst log_less_cancel_iff) simp_all
  then have hi: "log 2 x < real_of_int e + 1" by (simp add: log2_powi)
  from lo hi show ?thesis by linarith
qed

lemma py_float_err_abs: "\<bar>py_float x - x\<bar> \<le> 2 powi (float_exponent x - 53)"
proof (cases "x = 0")
  case True
  then show ?thesis by (simp add: py_float_def)
next
  case False
  let ?q = "(2 :: real) powi (float_exponent x - 52)"
  let ?m = "round_half_even (x / ?q)"
  have q: "0 < ?q" by simp
  have "\<bar>of_int ?m - x / ?q\<bar> \<le> 1 / 2" by (rule round_half_even_err)
  then have "\<bar>of_int ?m - x / ?q\<bar> * ?q \<le> 1 / 2 * ?q"
    using q by (intro mult_right_mono) simp_all
  moreover have "\<bar>of_int ?m - x / ?q\<bar> * ?q = \<bar>of_int ?m * ?q - x\<bar>"
  proof -
    have "\<bar>of_int ?m - x / ?q\<bar> * ?q = \<bar>(of_int ?m - x / ?q) * ?q\<bar>"
      using q by (simp add: abs_mult)
    also have "(of_int ?m - x / ?q) * ?q = of_int ?m * ?q - x"
      using q by (simp add: left_diff_distrib)
    finally show ?thesis .
  qed
  moreover have "1 / 2 * ?q = 2 powi (float_exponent x - 53)"
  proof -
    have "(2 :: real) powi (float_exponent x - 53 + 1) = 2 * 2 powi (float_exponent x - 53)"
      by (rule power_int_add_1') simp
    moreover have "float_exponent x - 53 + 1 = float_exponent x - 52" by simp
    ultimately show ?thesis by simp
  qed
  ultimately show ?thesis using False by (simp add: py_float_def)
qed

lemma py_float_err_normal:
  assumes "2 powi (- 1022) \<le> \<bar>x\<bar>"
  shows "\<bar>py_float x - x\<bar> \<le> unit_roundoff * \<bar>x\<bar>"
proof -
  have pos: "0 < \<bar>x\<bar>" using assms powi_pos [of "- 1022"] by linarith
  have "log 2 (2 powi (- 1022)) \<le> log 2 \<bar>x\<bar>"
    using assms pos by (subst log_le_cancel_iff) simp_all
  then have "real_of_int (- 1022) \<le> log 2 \<bar>x\<bar>" by (simp only: log2_powi)
  then have "- 1022 \<le> \<lfloor>log 2 \<bar>x\<bar>\<rfloor>" by (simp add: le_floor_iff)
  then have e: "float_exponent x = \<lfloor>log 2 \<bar>x\<bar>\<rfloor>" by (simp add: float_exponent_def)
  have le: "2 powi float_exponent x \<le> \<bar>x\<bar>"
    unfolding e using pos by (rule floor_log_bounds)
  have "(2 :: real) powi (- 53 + float_exponent x) = 2 powi (- 53) * 2 powi float_exponent x"
    by (rule power_int_add) simp
  moreover have "- 53 + float_exponent x = float_exponent x - 53" by simp
  ultimately have "(2 :: real) powi (float_exponent x - 53)
      = unit_roundoff * 2 powi float_exponent x"
    by (simp add: unit_roundoff_def)
  also have "\<dots> \<le> unit_roundoff * \<bar>x\<bar>"
    using le by (intro mult_left_mono) (simp_all add: unit_roundoff_def)
  finally show ?thesis using py_float_err_abs [of x] by linarith
qed

lemma py_float_err:
  "\<bar>py_float x - x\<bar> \<le> unit_roundoff * \<bar>x\<bar> + underflow_err"
proof (cases "2 powi (- 1022) \<le> \<bar>x\<bar>")
  case True
  have "0 \<le> underflow_err" by (simp add: underflow_err_def)
  with py_float_err_normal [OF True] show ?thesis by linarith
next
  case False
  then have lt: "\<bar>x\<bar> < 2 powi (- 1022)" by simp
  show ?thesis
  proof (cases "x = 0")
    case True
    then show ?thesis by (simp add: py_float_def unit_roundoff_def underflow_err_def)
  next
    case nz: False
    then have pos: "0 < \<bar>x\<bar>" by simp
    have "log 2 \<bar>x\<bar> < log 2 (2 powi (- 1022))"
      using lt pos by (subst log_less_cancel_iff) simp_all
    then have "log 2 \<bar>x\<bar> < real_of_int (- 1022)" by (simp only: log2_powi)
    then have "\<lfloor>log 2 \<bar>x\<bar>\<rfloor> < - 1022" by (simp add: floor_less_iff)
    then have e: "float_exponent x = - 1022" by (simp add: float_exponent_def)
    have "\<bar>py_float x - x\<bar> \<le> underflow_err"
      using py_float_err_abs [of x] by (simp add: e underflow_err_def)
    moreover have "0 \<le> unit_roundoff * \<bar>x\<bar>" by (simp add: unit_roundoff_def)
    ultimately show ?thesis by linarith
  qed
qed

lemma py_float_nonneg: "0 \<le> x \<Longrightarrow> 0 \<le> py_float x"
proof -
  assume x: "0 \<le> x"
  have "0 \<le> x / 2 powi (float_exponent x - 52)" using x by simp
  then have "of_int 0 \<le> x / 2 powi (float_exponent x - 52)" by simp
  then have "0 \<le> round_half_even (x / 2 powi (float_exponent x - 52))"
    by (rule round_half_even_ge)
  then show ?thesis by (simp add: py_float_def)
qed

lemma py_float_eval:
  assumes "1 / 2 ^ n \<le> \<bar>x\<bar>" and "\<bar>x\<bar> < 2 / 2 ^ n" and "n \<le> 1022"
  shows "py_float x = of_int (round_half_even (x * 2 ^ (n + 52))) / 2 ^ (n + 52)"
proof -
  have p: "(2 :: real) powi (- int n) = 1 / 2 ^ n"
    by (simp add: power_int_minus divide_inverse)
  have p1: "(2 :: real) powi (- int n + 1) = 2 / 2 ^ n"
  proof -
    have "(2 :: real) powi (- int n + 1) = 2 * 2 powi (- int n)"
      by (rule power_int_add_1') simp
    then show ?thesis by (simp add: p)
  qed
  have lo: "2 powi (- int n) \<le> \<bar>x\<bar>" using assms(1) by (simp only: p)
  have hi: "\<bar>x\<bar> < 2 powi (- int n + 1)" using assms(2) by (simp only: p1)
  have "\<lfloor>log 2 \<bar>x\<bar>\<rfloor> = - int n"
    using lo hi by (rule floor_log_unique)
  then have e: "float_exponent x = - int n"
    using assms(3) by (simp add: float_exponent_def)
  have "- int n - 52 = - int (n + 52)" by simp
  then have q: "(2 :: real) powi (float_exponent x - 52) = 1 / 2 ^ (n + 52)"
    unfolding e by (simp only: power_int_minus power_int_of_nat) (simp add: divide_inverse)
  have nz: "x \<noteq> 0"
  proof
    assume "x = 0"
    with assms(1) have "1 / (2 :: real) ^ n \<le> 0" by simp
    moreover have "0 < 1 / (2 :: real) ^ n" by simp
    ultimately show False by linarith
  qed
  show ?thesis using nz by (simp add: py_float_def q)
qed

lemma py_float_eval_ge1:
  assumes "2 ^ n \<le> \<bar>x\<bar>" and "\<bar>x\<bar> < 2 * 2 ^ n" and "n \<le> 52"
  shows "py_float x = of_int (round_half_even (x * 2 ^ (52 - n))) / 2 ^ (52 - n)"
proof -
  have lo: "2 powi int n \<le> \<bar>x\<bar>" using assms(1) by simp
  have "(2 :: real) powi (int n + 1) = 2 * 2 powi int n"
    by (rule power_int_add_1') simp
  then have hi: "\<bar>x\<bar> < 2 powi (int n + 1)" using assms(2) by simp
  have "\<lfloor>log 2 \<bar>x\<bar>\<rfloor> = int n"
    using lo hi by (rule floor_log_unique)
  then have e: "float_exponent x = int n" by (simp add: float_exponent_def)
  have "int n - 52 = - int (52 - n)" using assms(3) by simp
  then have q: "(2 :: real) powi (float_exponent x - 52) = 1 / 2 ^ (52 - n)"
    unfolding e by (simp only: power_int_minus power_int_of_nat) (simp add: divide_inverse)
  have nz: "x \<noteq> 0"
  proof
    assume "x = 0"
    with assms(1) have "(2 :: real) ^ n \<le> 0" by simp
    moreover have "0 < (2 :: real) ^ n" by simp
    ultimately show False by linarith
  qed
  show ?thesis using nz by (simp add: py_float_def q)
qed

lemma py_float_0: "py_float 0 = 0"
  by (simp add: py_float_def)

lemma py_float_1: "py_float 1 = 1"
  using py_float_eval_ge1 [of 0 1] by (simp add: round_half_even_def)

lemma unit_roundoff_bounds: "0 < unit_roundoff" "unit_roundoff < 1"
  by (simp_all add: unit_roundoff_def power_int_minus inverse_eq_divide)

lemma float_add_bounds:
  assumes "2 powi (- 1022) \<le> a" and "0 \<le> s"
  shows "(1 - unit_roundoff) * (s + a) \<le> float_add s a"
    and "float_add s a \<le> (1 + unit_roundoff) * (s + a)"
proof -
  have "0 < (2 :: real) powi (- 1022)" by simp
  with assms have x: "2 powi (- 1022) \<le> \<bar>s + a\<bar>" and pos: "0 \<le> s + a" by linarith+
  from py_float_err_normal [OF x] pos
  have "\<bar>py_float (s + a) - (s + a)\<bar> \<le> unit_roundoff * (s + a)" by simp
  then show "(1 - unit_roundoff) * (s + a) \<le> float_add s a"
    and "float_add s a \<le> (1 + unit_roundoff) * (s + a)"
    by (simp_all add: float_add_def algebra_simps abs_le_iff)
qed

lemma foldl_float_add_bounds:
  assumes "\<forall>a \<in> set as. 2 powi (- 1022) \<le> a" and "0 \<le> S"
    and "S * (1 - unit_roundoff) ^ n \<le> s" and "s \<le> S * (1 + unit_roundoff) ^ n"
  shows "(S + sum_list as) * (1 - unit_roundoff) ^ (n + length as) \<le> foldl float_add s as
         \<and> foldl float_add s as \<le> (S + sum_list as) * (1 + unit_roundoff) ^ (n + length as)"
  using assms
proof (induction as arbitrary: s S n)
  case Nil
  then show ?case by simp
next
  case (Cons a as)
  let ?u = unit_roundoff
  have u: "0 < ?u" "?u < 1" by (rule unit_roundoff_bounds)+
  have a: "2 powi (- 1022) \<le> a" using Cons.prems(1) by simp
  have "0 < (2 :: real) powi (- 1022)" by simp
  with a have a0: "0 \<le> a" by linarith
  have lo_pow: "0 \<le> (1 - ?u) ^ n" "(1 - ?u) ^ n \<le> 1"
    using u by (simp_all add: power_le_one)
  have hi_pow: "1 \<le> (1 + ?u) ^ n" using u by simp
  have s0: "0 \<le> s"
  proof -
    have "0 \<le> S * (1 - ?u) ^ n" using Cons.prems(2) lo_pow(1) by simp
    with Cons.prems(3) show ?thesis by linarith
  qed
  have lo: "(S + a) * (1 - ?u) ^ Suc n \<le> float_add s a"
  proof -
    have "a * (1 - ?u) ^ n \<le> a" using a0 lo_pow(2) by (simp add: mult_left_le)
    with Cons.prems(3) have "(S + a) * (1 - ?u) ^ n \<le> s + a" by (simp add: algebra_simps)
    then have "(1 - ?u) * ((S + a) * (1 - ?u) ^ n) \<le> (1 - ?u) * (s + a)"
      using u by (intro mult_left_mono) simp_all
    with float_add_bounds(1) [OF a s0] show ?thesis by (simp add: algebra_simps)
  qed
  have hi: "float_add s a \<le> (S + a) * (1 + ?u) ^ Suc n"
  proof -
    have "a \<le> a * (1 + ?u) ^ n" using a0 hi_pow by (simp add: mult_le_cancel_left1)
    with Cons.prems(4) have "s + a \<le> (S + a) * (1 + ?u) ^ n" by (simp add: algebra_simps)
    then have "(1 + ?u) * (s + a) \<le> (1 + ?u) * ((S + a) * (1 + ?u) ^ n)"
      using u by (intro mult_left_mono) simp_all
    with float_add_bounds(2) [OF a s0] show ?thesis by (simp add: algebra_simps)
  qed
  have rest: "\<forall>a \<in> set as. 2 powi (- 1022) \<le> a" using Cons.prems(1) by simp
  have S': "0 \<le> S + a" using Cons.prems(2) a0 by simp
  from Cons.IH [OF rest S' lo hi] show ?case by (simp add: add.assoc)
qed

lemma float_sum_bounds:
  assumes "\<forall>a \<in> set as. 2 powi (- 1022) \<le> a"
  shows "sum_list as * (1 - unit_roundoff) ^ length as \<le> float_sum as"
    and "float_sum as \<le> sum_list as * (1 + unit_roundoff) ^ length as"
  using foldl_float_add_bounds [OF assms, of 0 0 0] by (simp_all add: float_sum_def)

lemma float_div_sum_err:
  assumes "\<forall>a \<in> set as. 0 \<le> a" and "0 < T"
  shows "\<bar>sum_list (map (\<lambda>a. float_div a T) as) - sum_list as / T\<bar>
           \<le> unit_roundoff * (sum_list as / T) + real (length as) * underflow_err"
  using assms(1)
proof (induction as)
  case Nil
  then show ?case by simp
next
  case (Cons a as)
  have a0: "0 \<le> a / T" using Cons.prems assms(2) by simp
  have "\<bar>a / T\<bar> = a / T" using a0 by (rule abs_of_nonneg)
  then have "\<bar>float_div a T - a / T\<bar> \<le> unit_roundoff * (a / T) + underflow_err"
    using py_float_err [of "a / T"] by (simp only: float_div_def)
  moreover have "\<bar>sum_list (map (\<lambda>a. float_div a T) as) - sum_list as / T\<bar>
           \<le> unit_roundoff * (sum_list as / T) + real (length as) * underflow_err"
    using Cons by simp
  ultimately show ?case
    by (simp add: algebra_simps add_divide_distrib)
qed

lemma sum_near_one:
  fixes u eta k rho P :: real
  assumes u: "0 < u" "u \<le> 1 / 4" and eta: "0 \<le> eta" "eta \<le> u / 2"
    and k: "1 \<le> k" "k * u \<le> 1 / 2"
    and rho: "1 - k * u \<le> rho" "rho * (1 - k * u) \<le> 1"
    and P: "\<bar>P - rho\<bar> \<le> u * rho + k * eta"
  shows "\<bar>P - 1\<bar> \<le> 4 * k * u"
proof -
  have ku: "0 < k * u" using u k by simp
  have rho0: "0 \<le> rho" using rho(1) k(2) by linarith
  have rho_hi: "rho \<le> 1 + 2 * k * u"
  proof -
    have "(1 + 2 * k * u) * (1 - k * u) = 1 + k * u * (1 - 2 * (k * u))"
      by (simp add: algebra_simps)
    moreover have "0 \<le> k * u * (1 - 2 * (k * u))" using ku k(2) by simp
    ultimately have "1 \<le> (1 + 2 * k * u) * (1 - k * u)" by linarith
    with rho(2) have "rho * (1 - k * u) \<le> (1 + 2 * k * u) * (1 - k * u)" by linarith
    moreover have "0 < 1 - k * u" using k(2) by linarith
    ultimately show ?thesis by (simp add: mult_le_cancel_right)
  qed
  have keta: "k * eta \<le> k * u / 2"
    using eta(2) k(1) by (simp add: mult_left_mono)
  have urho: "u * rho \<le> u * (1 + 2 * k * u)"
    using rho_hi u(1) by (simp add: mult_left_mono)
  have uku: "u * (2 * k * u) \<le> k * u / 2"
  proof -
    have "u * (2 * k * u) = (k * u) * (2 * u)" by simp
    also have "\<dots> \<le> (k * u) * (1 / 2)" using ku u(2) by (intro mult_left_mono) simp_all
    finally show ?thesis by simp
  qed
  have uk: "u \<le> k * u" using k(1) u(1) by simp
  from P have "P \<le> rho + u * rho + k * eta" and "rho - u * rho - k * eta \<le> P"
    by (simp_all add: abs_le_iff)
  with rho_hi rho(1) keta urho uku uk show ?thesis
    by (simp add: abs_le_iff algebra_simps)
qed


lemma float_proportions_near_one:
  assumes amounts: "\<forall>a \<in> set as. 2 powi (- 1022) \<le> a"
    and ne: "as \<noteq> []" and len: "length as \<le> 2 ^ 52"
  shows "0 < float_sum as"
    and "\<bar>sum_list (map (\<lambda>a. float_div a (float_sum as)) as) - 1\<bar>
           \<le> real (length as) * 2 powi (- 51)"
proof -
  let ?u = unit_roundoff
  let ?k = "real (length as)"
  let ?S = "sum_list as"
  let ?T = "float_sum as"
  have m: "0 < (2 :: real) powi (- 1022)" by simp
  have u: "0 < ?u" "?u < 1" by (rule unit_roundoff_bounds)+
  have u4: "?u \<le> 1 / 4"
  proof -
    have "(2 :: real) powi (- 53) \<le> 2 powi (- 2)" by (rule power_int_increasing) simp_all
    then show ?thesis by (simp add: unit_roundoff_def power_int_minus)
  qed
  have eta: "0 \<le> underflow_err" "underflow_err \<le> ?u / 2"
  proof -
    show "0 \<le> underflow_err" by (simp add: underflow_err_def)
    have "(2 :: real) powi (- 1075) \<le> 2 powi (- 54)" by (rule power_int_increasing) simp_all
    moreover have "(2 :: real) powi (- 54 + 1) = 2 * 2 powi (- 54)"
      by (rule power_int_add_1') simp
    ultimately show "underflow_err \<le> ?u / 2"
      by (simp add: underflow_err_def unit_roundoff_def)
  qed
  have k1: "1 \<le> ?k" using ne by (cases as) simp_all
  have ku: "?k * ?u \<le> 1 / 2"
  proof -
    have "?k \<le> 2 ^ 52" using len by (metis of_nat_le_iff of_nat_numeral of_nat_power)
    then have "?k * ?u \<le> 2 ^ 52 * ?u" using u(1) by (intro mult_right_mono) simp_all
    also have "2 ^ 52 * ?u = (2 :: real) powi 52 * 2 powi (- 53)"
      by (simp add: unit_roundoff_def)
    also have "\<dots> = 2 powi (52 + (- 53))" by (rule power_int_add [symmetric]) simp
    also have "\<dots> = 1 / 2" by (simp add: power_int_minus)
    finally show ?thesis .
  qed
  have a0: "\<forall>a \<in> set as. 0 \<le> a" using amounts m by (auto intro: less_imp_le order_trans)
  have Spos: "0 < ?S"
  proof -
    obtain a rest where c: "as = a # rest" using ne by (cases as) auto
    have "0 \<le> sum_list rest" using a0 c by (intro sum_list_nonneg) simp
    moreover have "0 < a" using amounts c m by (auto intro: less_le_trans)
    ultimately show ?thesis using c by simp
  qed
  have bern: "1 - ?k * ?u \<le> (1 - ?u) ^ length as"
    using Bernoulli_inequality [of "- ?u" "length as"] u by simp
  have lo: "?S * (1 - ?k * ?u) \<le> ?T"
  proof -
    have "?S * (1 - ?k * ?u) \<le> ?S * (1 - ?u) ^ length as"
      using bern Spos by (intro mult_left_mono) simp_all
    with float_sum_bounds(1) [OF amounts] show ?thesis by linarith
  qed
  have "0 < ?S * (1 - ?k * ?u)" using Spos ku by (intro mult_pos_pos) simp_all
  with lo show Tpos: "0 < ?T" by linarith
  have prod: "(1 - ?k * ?u) * (1 + ?u) ^ length as \<le> 1"
  proof -
    have "(1 - ?k * ?u) * (1 + ?u) ^ length as \<le> (1 - ?u) ^ length as * (1 + ?u) ^ length as"
      using bern u by (intro mult_right_mono) simp_all
    also have "\<dots> = ((1 - ?u) * (1 + ?u)) ^ length as" by (simp add: power_mult_distrib)
    also have "\<dots> \<le> 1"
    proof (rule power_le_one)
      show "0 \<le> (1 - ?u) * (1 + ?u)" using u by simp
      have "(1 - ?u) * (1 + ?u) = 1 - ?u * ?u" by (simp add: algebra_simps)
      then show "(1 - ?u) * (1 + ?u) \<le> 1" using u by simp
    qed
    finally show ?thesis .
  qed
  have hi: "(1 - ?k * ?u) * ?T \<le> ?S"
  proof -
    have "(1 - ?k * ?u) * ?T \<le> (1 - ?k * ?u) * (?S * (1 + ?u) ^ length as)"
      using float_sum_bounds(2) [OF amounts] ku by (intro mult_left_mono) simp_all
    also have "\<dots> = ?S * ((1 - ?k * ?u) * (1 + ?u) ^ length as)" by simp
    also have "\<dots> \<le> ?S * 1" using prod Spos by (intro mult_left_mono) simp_all
    finally show ?thesis by simp
  qed
  have rho1: "1 - ?k * ?u \<le> ?S / ?T"
    using hi Tpos by (simp add: pos_le_divide_eq)
  have rho2: "?S / ?T * (1 - ?k * ?u) \<le> 1"
    using lo Tpos by (simp add: pos_divide_le_eq)
  have P: "\<bar>sum_list (map (\<lambda>a. float_div a ?T) as) - ?S / ?T\<bar>
      \<le> ?u * (?S / ?T) + ?k * underflow_err"
    using a0 Tpos by (rule float_div_sum_err)
  have near: "\<bar>sum_list (map (\<lambda>a. float_div a ?T) as) - 1\<bar> \<le> 4 * ?k * ?u"
    using u(1) u4 eta k1 ku rho1 rho2 P by (rule sum_near_one)
  have four: "4 * ?u = 2 powi (- 51)"
  proof -
    have "(2 :: real) powi (2 + (- 53)) = 2 powi 2 * 2 powi (- 53)"
      by (rule power_int_add) simp
    then show ?thesis by (simp add: unit_roundoff_def)
  qed
  have "4 * ?k * ?u = ?k * (4 * ?u)" by simp
  also have "\<dots> = ?k * 2 powi (- 51)" by (simp only: four)
  finally have "4 * ?k * ?u = ?k * 2 powi (- 51)" .
  with near show "\<bar>sum_list (map (\<lambda>a. float_div a ?T) as) - 1\<bar>
           \<le> ?k * 2 powi (- 51)"
    by (simp only:)
qed

lemma py_float_ge_min:
  assumes "2 powi (- 1022) \<le> x"
  shows "2 powi (- 1022) \<le> py_float x"
proof -
  have m: "0 < (2 :: real) powi (- 1022)" by simp
  with assms have pos: "0 < x" by linarith
  then have ax: "\<bar>x\<bar> = x" by simp
  have "log 2 (2 powi (- 1022)) \<le> log 2 x"
    using assms pos by (subst log_le_cancel_iff) simp_all
  then have "real_of_int (- 1022) \<le> log 2 x" by (simp only: log2_powi)
  then have ge: "- 1022 \<le> \<lfloor>log 2 x\<rfloor>" by (simp add: le_floor_iff)
  then have e: "float_exponent x = \<lfloor>log 2 x\<rfloor>" by (simp add: float_exponent_def ax)
  let ?e = "float_exponent x"
  let ?q = "(2 :: real) powi (?e - 52)"
  have le: "2 powi ?e \<le> x" unfolding e using pos by (rule floor_log_bounds)
  have split: "(2 :: real) powi ?e = 2 powi 52 * ?q"
  proof -
    have "(2 :: real) powi (52 + (?e - 52)) = 2 powi 52 * ?q" by (rule power_int_add) simp
    then show ?thesis by simp
  qed
  have "of_int (2 ^ 52) * ?q \<le> x" using le split by simp
  then have "of_int (2 ^ 52) \<le> x / ?q" by (simp add: pos_le_divide_eq)
  then have "2 ^ 52 \<le> round_half_even (x / ?q)" by (rule round_half_even_ge)
  then have "(of_int (2 ^ 52) :: real) \<le> of_int (round_half_even (x / ?q))"
    by (simp only: of_int_le_iff)
  then have "of_int (2 ^ 52) * ?q \<le> of_int (round_half_even (x / ?q)) * ?q"
    by (intro mult_right_mono) simp_all
  then have "2 powi ?e \<le> py_float x" using split pos by (simp add: py_float_def)
  moreover have "(2 :: real) powi (- 1022) \<le> 2 powi ?e"
    using ge e by (intro power_int_increasing) simp_all
  ultimately show ?thesis by linarith
qed

lemma py_float_4: "py_float 4 = 4"
  using py_float_eval_ge1 [of 2 4] by (simp add: round_half_even_def)

lemma py_float_5: "py_float 5 = 5"
  using py_float_eval_ge1 [of 2 5] by (simp add: round_half_even_def)

lemma py_float_6: "py_float 6 = 6"
  using py_float_eval_ge1 [of 2 6] by (simp add: round_half_even_def)

lemma py_float_sixth: "py_float (1 / 6) = 6004799503160661 / 2 ^ 55"
  using py_float_eval [of 3 "1 / 6"] by (simp add: round_half_even_def)

lemma py_float_two_thirds: "py_float (2 / 3) = 6004799503160661 / 2 ^ 53"
  using py_float_eval [of 1 "2 / 3"] by (simp add: round_half_even_def)

lemma float_add_sixths_1:
  "float_add 0 (6004799503160661 / 2 ^ 55) = 6004799503160661 / 2 ^ 55"
  using py_float_eval [of 3 "6004799503160661 / 2 ^ 55"]
  by (simp add: float_add_def round_half_even_def)

lemma float_add_sixths_2:
  "float_add (6004799503160661 / 2 ^ 55) (6004799503160661 / 2 ^ 53)
     = 7505999378950826 / 2 ^ 53"
  using py_float_eval [of 1 "6004799503160661 / 2 ^ 55 + 6004799503160661 / 2 ^ 53"]
  by (simp add: float_add_def round_half_even_def)

lemma float_add_sixths_3:
  "float_add (7505999378950826 / 2 ^ 53) (6004799503160661 / 2 ^ 55)
     = 9007199254740991 / 2 ^ 53"
  using py_float_eval [of 1 "7505999378950826 / 2 ^ 53 + 6004799503160661 / 2 ^ 55"]
  by (simp add: float_add_def round_half_even_def)

lemma floor_log_ge1:
  assumes "1 \<le> a"
  shows "\<lfloor>log 2 a\<rfloor> = bitlen \<lfloor>a\<rfloor> - 1"
proof -
  let ?n = "\<lfloor>a\<rfloor>"
  have n: "0 < ?n" using assms by simp
  from bitlen_bounds [OF n] have lo: "2 ^ nat (bitlen ?n - 1) \<le> ?n"
    and hi: "?n < 2 ^ nat (bitlen ?n)" by simp_all
  have b1: "1 \<le> bitlen ?n" using n by (auto simp: bitlen_alt_def)
  have "(2 :: real) powi (bitlen ?n - 1) = 2 ^ nat (bitlen ?n - 1)"
    using b1 by (simp add: power_int_def)
  also have "\<dots> = of_int (2 ^ nat (bitlen ?n - 1))" by simp
  also have "\<dots> \<le> of_int ?n" using lo by (simp only: of_int_le_iff)
  also have "\<dots> \<le> a" by simp
  finally have l: "2 powi (bitlen ?n - 1) \<le> a" .
  have "?n + 1 \<le> 2 ^ nat (bitlen ?n)" using hi by simp
  then have "(of_int (?n + 1) :: real) \<le> of_int (2 ^ nat (bitlen ?n))"
    by (simp only: of_int_le_iff)
  moreover have "a < of_int (?n + 1)" by simp
  ultimately have "a < of_int (2 ^ nat (bitlen ?n))" by linarith
  also have "(of_int (2 ^ nat (bitlen ?n)) :: real) = 2 powi (bitlen ?n - 1 + 1)"
    using b1 by (simp add: power_int_def)
  finally have h: "a < 2 powi (bitlen ?n - 1 + 1)" .
  from l h show ?thesis by (rule floor_log_unique)
qed

lemma floor_log_lt1:
  assumes "0 < a" and "a < 1"
  shows "\<lfloor>log 2 a\<rfloor> = - bitlen (\<lceil>1 / a\<rceil> - 1)"
proof -
  let ?y = "1 / a"
  let ?n = "\<lceil>?y\<rceil> - 1"
  have y: "1 < ?y" using assms by simp
  then have n: "0 < ?n" by linarith
  from bitlen_bounds [OF n] have lo: "2 ^ nat (bitlen ?n - 1) \<le> ?n"
    and hi: "?n < 2 ^ nat (bitlen ?n)" by simp_all
  have b1: "1 \<le> bitlen ?n" using n by (auto simp: bitlen_alt_def)
  have "\<lceil>?y\<rceil> \<le> 2 ^ nat (bitlen ?n)" using hi by simp
  then have "(of_int \<lceil>?y\<rceil> :: real) \<le> of_int (2 ^ nat (bitlen ?n))"
    by (simp only: of_int_le_iff)
  moreover have "?y \<le> of_int \<lceil>?y\<rceil>" by (rule le_of_int_ceiling)
  ultimately have "?y \<le> of_int (2 ^ nat (bitlen ?n))" by linarith
  then have "?y \<le> 2 ^ nat (bitlen ?n)" by simp
  then have "1 \<le> a * 2 ^ nat (bitlen ?n)"
    using assms(1) by (simp add: pos_divide_le_eq mult.commute)
  then have "1 / 2 ^ nat (bitlen ?n) \<le> a" by (simp add: pos_divide_le_eq)
  moreover have "(2 :: real) powi (- bitlen ?n) = 1 / 2 ^ nat (bitlen ?n)"
    using b1 by (simp add: power_int_def inverse_eq_divide power_one_over)
  ultimately have l: "2 powi (- bitlen ?n) \<le> a" by simp
  have "(of_int (2 ^ nat (bitlen ?n - 1)) :: real) \<le> of_int ?n"
    using lo by (simp only: of_int_le_iff)
  moreover have "of_int ?n < ?y" by linarith
  ultimately have "2 ^ nat (bitlen ?n - 1) < ?y" by simp
  then have "a * 2 ^ nat (bitlen ?n - 1) < 1"
    using assms(1) by (simp add: pos_less_divide_eq mult.commute)
  then have "a < 1 / 2 ^ nat (bitlen ?n - 1)" by (simp add: pos_less_divide_eq)
  moreover have "(2 :: real) powi (- bitlen ?n + 1) = 1 / 2 ^ nat (bitlen ?n - 1)"
  proof (cases "bitlen ?n = 1")
    case True
    then show ?thesis by simp
  next
    case False
    with b1 have "- bitlen ?n + 1 < 0" by simp
    moreover have "nat (- (- bitlen ?n + 1)) = nat (bitlen ?n - 1)" by simp
    ultimately show ?thesis
      by (simp add: power_int_def inverse_eq_divide power_one_over)
  qed
  ultimately have h: "a < 2 powi (- bitlen ?n + 1)" by simp
  from l h show ?thesis by (rule floor_log_unique)
qed

text \<open>
  The binary exponent computed without the logarithm, from the bit length of an
  integer; this is the equation the code generator evaluates \<open>py_float\<close> with.
\<close>

lemma float_exponent_code [code]:
  "float_exponent x =
     (if x = 0 then 0
      else if 1 \<le> \<bar>x\<bar> then max (bitlen \<lfloor>\<bar>x\<bar>\<rfloor> - 1) (- 1022)
      else max (- bitlen (\<lceil>1 / \<bar>x\<bar>\<rceil> - 1)) (- 1022))"
proof (cases "x = 0")
  case True
  then show ?thesis by (simp add: float_exponent_def log_def)
next
  case False
  then have pos: "0 < \<bar>x\<bar>" by simp
  show ?thesis
  proof (cases "1 \<le> \<bar>x\<bar>")
    case True
    with False floor_log_ge1 [OF True] show ?thesis by (simp add: float_exponent_def)
  next
    case lt: False
    then have "\<bar>x\<bar> < 1" by simp
    from floor_log_lt1 [OF pos this] False lt show ?thesis
      by (simp add: float_exponent_def)
  qed
qed

subsection \<open>get\_composition\_dict\<close>

lemma list_index_Some: "v \<in> set xs \<Longrightarrow> \<exists>i. list_index xs v = Some i"
  by (induction xs) auto

lemma set_update_sub: "set (AList.update k v d) \<subseteq> insert (k, v) (set d)"
  by (induction d) auto

lemma length_update_le: "length (AList.update k v d) \<le> Suc (length d)"
  by (induction d) auto

lemma composition_rows_all:
  "composition_rows ed rows d0 = Inr d \<Longrightarrow> (\<forall>e \<in> set d0. P (proportion e))
     \<Longrightarrow> (\<forall>r \<in> set rows. \<forall>n. n_cell r = Some n \<longrightarrow> P (py_float n))
     \<Longrightarrow> (\<forall>e \<in> set d. P (proportion e))"
proof (induction rows arbitrary: d0)
  case Nil
  then show ?case by simp
next
  case (Cons r rs)
  from Cons.prems(1) obtain Z c n i where
    cells: "Z_cell r = Some Z" "charge_cell r = Some c" "n_cell r = Some n"
      "list_index (map snd ed) Z = Some i"
    and rest: "composition_rows ed rs (AList.update (fst (ed ! i)) (Z, c, py_float n) d0)
                 = Inr d"
    by (auto split: option.splits)
  have "P (py_float n)" using Cons.prems(3) cells(3) by simp
  then have "\<forall>e \<in> set (AList.update (fst (ed ! i)) (Z, c, py_float n) d0).
      P (proportion e)"
    using Cons.prems(2) set_update_sub [of "fst (ed ! i)" "(Z, c, py_float n)" d0]
    by (auto simp: proportion_def)
  from Cons.IH [OF rest this] Cons.prems(3) show ?case by simp
qed

lemma composition_rows_nonempty:
  "composition_rows ed rows d0 = Inr d \<Longrightarrow> rows \<noteq> [] \<or> d0 \<noteq> [] \<Longrightarrow> d \<noteq> []"
proof (induction rows arbitrary: d0)
  case Nil
  then show ?case by simp
next
  case (Cons r rs)
  from Cons.prems(1) obtain Z c n i where
    rest: "composition_rows ed rs (AList.update (fst (ed ! i)) (Z, c, py_float n) d0)
             = Inr d"
    by (auto split: option.splits)
  from Cons.IH [OF rest] show ?case by simp
qed

lemma composition_rows_length:
  "composition_rows ed rows d0 = Inr d \<Longrightarrow> length d \<le> length d0 + length rows"
proof (induction rows arbitrary: d0)
  case Nil
  then show ?case by simp
next
  case (Cons r rs)
  from Cons.prems(1) obtain Z c n i where
    rest: "composition_rows ed rs (AList.update (fst (ed ! i)) (Z, c, py_float n) d0)
             = Inr d"
    by (auto split: option.splits)
  from Cons.IH [OF rest] length_update_le [of "fst (ed ! i)" "(Z, c, py_float n)" d0]
  show ?case by simp
qed

lemma composition_rows_readable:
  "\<forall>r \<in> set rows. readable_row ed r \<Longrightarrow> \<exists>d. composition_rows ed rows d0 = Inr d"
proof (induction rows arbitrary: d0)
  case Nil
  then show ?case by simp
next
  case (Cons r rs)
  from Cons.prems have "readable_row ed r" by simp
  then obtain Z c n where
    cells: "Z_cell r = Some Z" "charge_cell r = Some c" "n_cell r = Some n"
    and Z: "Z \<in> snd ` set ed"
    by (auto simp: readable_row_def split: option.splits)
  from Z obtain i where "list_index (map snd ed) Z = Some i"
    using list_index_Some [of Z "map snd ed"] by auto
  with cells Cons.IH Cons.prems show ?case by simp
qed

lemma one_in_float_range: "2 powi (- 1022) \<le> (1 :: real)" "(1 :: real) \<le> 2 powi 970"
proof -
  have "(2 :: real) powi (- 1022) \<le> 2 powi 0" by (rule power_int_increasing) simp_all
  then show "2 powi (- 1022) \<le> (1 :: real)" by simp
  have "(2 :: real) powi 0 \<le> 2 powi 970" by (rule power_int_increasing) simp_all
  then show "(1 :: real) \<le> 2 powi 970" by simp
qed

lemma two_in_float_range: "2 powi (- 1022) \<le> (2 :: real)" "(2 :: real) \<le> 2 powi 970"
proof -
  show "2 powi (- 1022) \<le> (2 :: real)" using one_in_float_range(1) by linarith
  have "(2 :: real) powi 1 \<le> 2 powi 970" by (rule power_int_increasing) simp_all
  then show "(2 :: real) \<le> 2 powi 970" by simp
qed

text \<open>
  Claim C5, as amended. Every composition mapping that \<open>get_composition_dict\<close> builds
  from a non-empty composition table of at most \<open>2 ^ 52\<close> rows whose amounts are
  positive floats of the normal range (from \<open>2 powi - 1022\<close> to \<open>2 powi 970\<close>, so that no
  sum leaves the range of the floats) is non-empty, and its fractional proportions
  (the last component of each entry), which are not negative, sum to 1 up to the
  rounding of the float arithmetic: the sum of the stored proportions differs from 1 by
  at most \<open>2 powi - 51\<close> per entry. The mapping is built, with no exception, whenever
  every row of the table is readable. Rows that name the same element overwrite each
  other, and the sum is taken over the entries that remain.
\<close>

theorem composition_proportions_sum_near_one:
  assumes "rows \<noteq> []" and "length rows \<le> 2 ^ 52"
    and "\<forall>r \<in> set rows. \<forall>n. n_cell r = Some n \<longrightarrow> 2 powi (- 1022) \<le> n \<and> n \<le> 2 powi 970"
  shows "(\<forall>d. get_composition_dict ed rows = Inr d \<longrightarrow>
            d \<noteq> []
            \<and> \<bar>sum_list (map proportion d) - 1\<bar> \<le> real (length d) * 2 powi (- 51)
            \<and> (\<forall>e \<in> set d. 0 \<le> proportion e))
         \<and> ((\<forall>r \<in> set rows. readable_row ed r) \<longrightarrow>
              (\<exists>d. get_composition_dict ed rows = Inr d))"
proof -
  have facts: "d0 \<noteq> [] \<and> length d0 \<le> 2 ^ 52
      \<and> (\<forall>a \<in> set (map proportion d0). 2 powi (- 1022) \<le> a)"
    if b: "composition_rows ed rows [] = Inr d0" for d0
  proof -
    have ne: "d0 \<noteq> []" using composition_rows_nonempty [OF b] assms(1) by simp
    have len: "length d0 \<le> 2 ^ 52" using composition_rows_length [OF b] assms(2) by simp
    have "\<forall>r \<in> set rows. \<forall>n. n_cell r = Some n \<longrightarrow> 2 powi (- 1022) \<le> py_float n"
      using assms(3) py_float_ge_min by blast
    then have "\<forall>e \<in> set d0. 2 powi (- 1022) \<le> proportion e"
      using composition_rows_all [OF b, of "\<lambda>a. 2 powi (- 1022) \<le> a"] by simp
    with ne len show ?thesis by simp
  qed
  have props: "map proportion (map (\<lambda>(el, Z, charge, n). (el, Z, charge, float_div n t)) d0)
      = map (\<lambda>a. float_div a t) (map proportion d0)" for t d0
    by (simp add: proportion_def case_prod_beta)
  have part1: "d \<noteq> [] \<and> \<bar>sum_list (map proportion d) - 1\<bar> \<le> real (length d) * 2 powi (- 51)
      \<and> (\<forall>e \<in> set d. 0 \<le> proportion e)"
    if g: "get_composition_dict ed rows = Inr d" for d
  proof -
    from g obtain d0 where b: "composition_rows ed rows [] = Inr d0"
      and d: "d = map (\<lambda>(el, Z, charge, n).
                         (el, Z, charge, float_div n (float_sum (map proportion d0)))) d0"
      by (auto simp: get_composition_dict_def Let_def split: sum.splits if_splits)
    let ?as = "map proportion d0"
    from facts [OF b] have ne: "?as \<noteq> []" and len: "length ?as \<le> 2 ^ 52"
      and amounts: "\<forall>a \<in> set ?as. 2 powi (- 1022) \<le> a" by simp_all
    have T: "0 < float_sum ?as"
      using amounts ne len by (rule float_proportions_near_one(1))
    have "\<bar>sum_list (map (\<lambda>a. float_div a (float_sum ?as)) ?as) - 1\<bar>
        \<le> real (length ?as) * 2 powi (- 51)"
      using amounts ne len by (rule float_proportions_near_one(2))
    then have near: "\<bar>sum_list (map proportion d) - 1\<bar> \<le> real (length d) * 2 powi (- 51)"
      unfolding d props by simp
    have "0 \<le> float_div a (float_sum ?as)" if "a \<in> set ?as" for a
    proof -
      have "0 < (2 :: real) powi (- 1022)" by simp
      with amounts that have "0 \<le> a" by (auto intro: less_imp_le order_trans)
      with T have "0 \<le> a / float_sum ?as" by simp
      then show ?thesis unfolding float_div_def by (rule py_float_nonneg)
    qed
    then have "\<forall>p \<in> set (map proportion d). 0 \<le> p" unfolding d props by auto
    then have nonneg: "\<forall>e \<in> set d. 0 \<le> proportion e" by simp
    have "d \<noteq> []" using ne d by simp
    with near nonneg show ?thesis by simp
  qed
  have part2: "\<exists>d. get_composition_dict ed rows = Inr d"
    if r: "\<forall>r \<in> set rows. readable_row ed r"
  proof -
    from composition_rows_readable [OF r, of "[]"] obtain d0
      where b: "composition_rows ed rows [] = Inr d0" by auto
    let ?as = "map proportion d0"
    from facts [OF b] have ne: "?as \<noteq> []" and len: "length ?as \<le> 2 ^ 52"
      and amounts: "\<forall>a \<in> set ?as. 2 powi (- 1022) \<le> a" by simp_all
    have "0 < float_sum ?as"
      using amounts ne len by (rule float_proportions_near_one(1))
    with b show ?thesis by (simp add: get_composition_dict_def Let_def)
  qed
  from part1 part2 show ?thesis by blast
qed

theorem composition_proportions_sum_near_one_witness:
  "\<exists>d. get_composition_dict [(''H'', 1), (''O'', 8)]
          [\<lparr>Z_cell = Some 1, charge_cell = Some 0, n_cell = Some 2\<rparr>,
           \<lparr>Z_cell = Some 8, charge_cell = Some 0, n_cell = Some 1\<rparr>] = Inr d
       \<and> d \<noteq> []
       \<and> \<bar>sum_list (map proportion d) - 1\<bar> \<le> real (length d) * 2 powi (- 51)"
proof -
  let ?ed = "[(''H'', 1), (''O'', 8)] :: element_dict"
  let ?rows = "[\<lparr>Z_cell = Some 1, charge_cell = Some 0, n_cell = Some 2\<rparr>,
                \<lparr>Z_cell = Some 8, charge_cell = Some 0, n_cell = Some 1\<rparr>]"
  have ne: "?rows \<noteq> []" by simp
  have len: "length ?rows \<le> 2 ^ 52" by simp
  have amounts: "\<forall>r \<in> set ?rows. \<forall>n. n_cell r = Some n \<longrightarrow>
      2 powi (- 1022) \<le> n \<and> n \<le> 2 powi 970"
    using one_in_float_range two_in_float_range by simp
  have readable: "\<forall>r \<in> set ?rows. readable_row ?ed r" by (simp add: readable_row_def)
  from composition_proportions_sum_near_one [OF ne len amounts, of ?ed] readable
  show ?thesis by blast
qed

text \<open>
  Claim C5 as stated fails: the proportions are float quotients and need not sum to 1.
  For the amounts 1, 4 and 1 the float total is 6, the stored proportions are the
  floats nearest to 1/6, 2/3 and 1/6, and their sum is \<open>1 - 1 / 2 ^ 54\<close>; added as
  floats from the left they give \<open>1 - 1 / 2 ^ 53\<close> (printed 0.9999999999999999).
\<close>

theorem composition_proportions_sum_not_one:
  "get_composition_dict [(''H'', 1), (''C'', 6), (''O'', 8)]
     [\<lparr>Z_cell = Some 1, charge_cell = Some 0, n_cell = Some 1\<rparr>,
      \<lparr>Z_cell = Some 8, charge_cell = Some 0, n_cell = Some 4\<rparr>,
      \<lparr>Z_cell = Some 6, charge_cell = Some 0, n_cell = Some 1\<rparr>]
     = Inr [(''H'', 1, 0, 6004799503160661 / 2 ^ 55),
            (''O'', 8, 0, 6004799503160661 / 2 ^ 53),
            (''C'', 6, 0, 6004799503160661 / 2 ^ 55)]
   \<and> sum_list (map proportion
        [(''H'', 1, 0, 6004799503160661 / 2 ^ 55),
         (''O'', 8, 0, 6004799503160661 / 2 ^ 53),
         (''C'', 6, 0, 6004799503160661 / 2 ^ 55)]) = 1 - 1 / 2 ^ 54
   \<and> float_sum (map proportion
        [(''H'', 1, 0, 6004799503160661 / 2 ^ 55),
         (''O'', 8, 0, 6004799503160661 / 2 ^ 53),
         (''C'', 6, 0, 6004799503160661 / 2 ^ 55)]) = 1 - 1 / 2 ^ 53"
proof -
  have total: "float_sum [1, 4, 1] = 6"
    by (simp add: float_sum_def float_add_def py_float_1 py_float_5 py_float_6)
  have built: "get_composition_dict [(''H'', 1), (''C'', 6), (''O'', 8)]
     [\<lparr>Z_cell = Some 1, charge_cell = Some 0, n_cell = Some 1\<rparr>,
      \<lparr>Z_cell = Some 8, charge_cell = Some 0, n_cell = Some 4\<rparr>,
      \<lparr>Z_cell = Some 6, charge_cell = Some 0, n_cell = Some 1\<rparr>]
     = Inr [(''H'', 1, 0, py_float (1 / 6)), (''O'', 8, 0, py_float (2 / 3)),
            (''C'', 6, 0, py_float (1 / 6))]"
    by (simp add: get_composition_dict_def proportion_def py_float_1 py_float_4 total
        float_div_def)
  have exact: "sum_list (map proportion
        [(''H'', 1, 0, 6004799503160661 / 2 ^ 55),
         (''O'', 8, 0, 6004799503160661 / 2 ^ 53),
         (''C'', 6, 0, 6004799503160661 / 2 ^ 55)]) = 1 - 1 / 2 ^ 54"
    by (simp add: proportion_def)
  have "float_add (float_add (float_add 0 (6004799503160661 / 2 ^ 55))
          (6004799503160661 / 2 ^ 53)) (6004799503160661 / 2 ^ 55)
      = 9007199254740991 / 2 ^ 53"
    by (simp only: float_add_sixths_1 float_add_sixths_2 float_add_sixths_3)
  then have rounded: "float_sum (map proportion
        [(''H'', 1, 0, 6004799503160661 / 2 ^ 55),
         (''O'', 8, 0, 6004799503160661 / 2 ^ 53),
         (''C'', 6, 0, 6004799503160661 / 2 ^ 55)]) = 1 - 1 / 2 ^ 53"
    by (simp add: float_sum_def proportion_def)
  from built exact rounded show ?thesis
    by (simp only: py_float_sixth py_float_two_thirds)
qed

subsection \<open>The q-min cut\<close>

lemma list_index_True_iff:
  "list_index bs True = Some i \<longleftrightarrow> i < length bs \<and> bs ! i \<and> (\<forall>j < i. \<not> bs ! j)"
proof (induction bs arbitrary: i)
  case Nil
  then show ?case by simp
next
  case (Cons b bs)
  show ?case
  proof (cases b)
    case True
    then show ?thesis by (cases i) auto
  next
    case False
    show ?thesis
    proof (cases i)
      case 0
      with False show ?thesis by auto
    next
      case (Suc k)
      have "(\<forall>j < Suc k. \<not> (b # bs) ! j) \<longleftrightarrow> (\<forall>j < k. \<not> bs ! j)"
        using False by (auto simp: less_Suc_eq_0_disj)
      with False Suc Cons.IH [of k] show ?thesis by auto
    qed
  qed
qed

lemma filter_ge_upt: "k \<le> n \<Longrightarrow> filter (\<lambda>i. k \<le> i) [0..<n] = [k..<n]"
  by (induction n) (auto simp: le_Suc_eq)

lemma filter_lt_upt: "k \<le> n \<Longrightarrow> filter (\<lambda>i. i < k) [0..<n] = [0..<k]"
  by (induction n) (auto simp: le_Suc_eq)


lemma sorted_prefix_index:
  fixes xs :: "real list"
  assumes "sorted xs"
  shows "\<exists>k \<le> length xs. \<forall>i < length xs. (xs ! i < m) = (i < k)"
proof -
  let ?P = "\<lambda>v. v < m"
  let ?k = "length (takeWhile ?P xs)"
  have le: "?k \<le> length xs" by (rule length_takeWhile_le)
  have "(xs ! i < m) = (i < ?k)" if i: "i < length xs" for i
  proof (cases "i < ?k")
    case True
    then have "takeWhile ?P xs ! i = xs ! i" by (rule takeWhile_nth)
    moreover have "takeWhile ?P xs ! i \<in> set (takeWhile ?P xs)" using True by simp
    ultimately have "?P (xs ! i)" using set_takeWhileD by metis
    with True show ?thesis by simp
  next
    case False
    then have ki: "?k \<le> i" by simp
    with i have "?k < length xs" by simp
    then have "\<not> ?P (xs ! ?k)" by (rule nth_length_takeWhile)
    moreover have "xs ! ?k \<le> xs ! i" using assms ki i by (rule sorted_nth_mono)
    ultimately show ?thesis using False by simp
  qed
  with le show ?thesis by blast
qed

lemma sorted_suffix_index:
  fixes xs :: "real list"
  assumes "sorted xs"
  shows "\<exists>k \<le> length xs. \<forall>i < length xs. (q < xs ! i) = (k \<le> i)"
proof -
  let ?P = "\<lambda>v. \<not> q < v"
  let ?k = "length (takeWhile ?P xs)"
  have le: "?k \<le> length xs" by (rule length_takeWhile_le)
  have "(q < xs ! i) = (?k \<le> i)" if i: "i < length xs" for i
  proof (cases "i < ?k")
    case True
    then have "takeWhile ?P xs ! i = xs ! i" by (rule takeWhile_nth)
    moreover have "takeWhile ?P xs ! i \<in> set (takeWhile ?P xs)" using True by simp
    ultimately have "?P (xs ! i)" using set_takeWhileD by metis
    with True show ?thesis by simp
  next
    case False
    then have ki: "?k \<le> i" by simp
    with i have "?k < length xs" by simp
    then have "\<not> ?P (xs ! ?k)" by (rule nth_length_takeWhile)
    moreover have "xs ! ?k \<le> xs ! i" using assms ki i by (rule sorted_nth_mono)
    ultimately show ?thesis using ki by simp
  qed
  with le show ?thesis by blast
qed

lemma np_where_prefix:
  assumes "k \<le> length xs" and "\<forall>i < length xs. p (xs ! i) = (i < k)"
  shows "np_where p xs = [0..<k]"
proof -
  have "filter (\<lambda>i. p (xs ! i)) [0..<length xs] = filter (\<lambda>i. i < k) [0..<length xs]"
    using assms(2) by (intro filter_cong) auto
  with assms(1) show ?thesis by (simp add: np_where_def filter_lt_upt)
qed

lemma np_where_suffix:
  assumes "k \<le> length xs" and "\<forall>i < length xs. p (xs ! i) = (k \<le> i)"
  shows "np_where p xs = [k..<length xs]"
proof -
  have "filter (\<lambda>i. p (xs ! i)) [0..<length xs] = filter (\<lambda>i. k \<le> i) [0..<length xs]"
    using assms(2) by (intro filter_cong) auto
  with assms(1) show ?thesis by (simp add: np_where_def filter_ge_upt)
qed

lemma np_take_prefix: "k \<le> length ys \<Longrightarrow> np_take ys [0..<k] = Inr (take k ys)"
  by (auto simp: np_take_def intro!: nth_equalityI)

lemma cut_qmax_sorted:
  assumes "sorted qs" and "length qs = length ys" and "qmax_cut \<noteq> BadText"
  shows "\<exists>k \<le> length qs. cut_qmax qmax_cut qs ys = Inr (take k qs, take k ys)"
proof (cases qmax_cut)
  case NoCut
  then have "cut_qmax qmax_cut qs ys
      = Inr (take (length qs) qs, take (length qs) ys)"
    using assms(2) by (simp add: cut_qmax_def)
  then show ?thesis by blast
next
  case (CutAt m)
  from sorted_prefix_index [OF assms(1), of m] obtain k
    where k: "k \<le> length qs" "\<forall>i < length qs. (qs ! i < m) = (i < k)" by blast
  have "np_where (\<lambda>q. q < m) qs = [0..<k]" using k by (rule np_where_prefix)
  with k(1) assms(2) CutAt have "cut_qmax qmax_cut qs ys = Inr (take k qs, take k ys)"
    by (simp add: cut_qmax_def np_take_prefix)
  with k(1) show ?thesis by blast
next
  case BadText
  with assms(3) show ?thesis by simp
qed

lemma qmin_padded_sorted:
  assumes "sorted xc" and "length xc \<le> length ys" and "\<exists>v \<in> set xc. qmin < v"
  shows "\<exists>k < length xc.
           qmin_padded qmin ys xc
             = Inr (replicate k (ys ! k) @ map ((!) ys) [k..<length xc])
           \<and> (\<forall>i < length xc. (qmin < xc ! i) = (k \<le> i))"
proof -
  from sorted_suffix_index [OF assms(1), of qmin] obtain k
    where k: "k \<le> length xc" "\<forall>i < length xc. (qmin < xc ! i) = (k \<le> i)" by blast
  from assms(3) obtain j where j: "j < length xc" "qmin < xc ! j"
    by (auto simp: in_set_conv_nth)
  with k(2) have "k \<le> j" by simp
  with j(1) have klt: "k < length xc" by simp
  have w: "np_where (\<lambda>q. qmin < q) xc = [k..<length xc]" using k by (rule np_where_suffix)
  have "list_index (map (\<lambda>q. qmin < q) xc) True = Some k"
    unfolding list_index_True_iff using klt k(2) by auto
  then have a: "np_argmax (map (\<lambda>q. qmin < q) xc) = Inr k"
    using klt by (auto simp: np_argmax_def)
  have t: "np_take ys [k..<length xc] = Inr (map ((!) ys) [k..<length xc])"
    using assms(2) by (auto simp: np_take_def)
  have "length xc - (length xc - k) = k" using klt by simp
  with a w t klt assms(2) have
    "qmin_padded qmin ys xc = Inr (replicate k (ys ! k) @ map ((!) ys) [k..<length xc])"
    by (simp add: qmin_padded_def)
  with klt k(2) show ?thesis by blast
qed

text \<open>
  Claim C3, as amended. For every scattering curve (Q and intensity arrays of equal
  length, Q non-decreasing), every q-max cutoff and every q-min cutoff that lies below
  at least one Q of the q-max-cut range, the q-min cut returns the q-max-cut Q array
  together with an intensity array of the same length, in which every entry at a Q not
  above q-min is the padding value \<open>fill_val\<close>, the first intensity of the q-max-cut
  curve at a Q above q-min, and every entry at a Q above q-min is the intensity the
  q-max-cut curve has there.
\<close>

theorem qmin_cut_pads:
  assumes "sorted qs" and "length qs = length ys"
    and "cut_q qmax_cut NoCut qs ys = Inr (qs_cut, ys_qmax)"
    and "\<exists>v \<in> set qs_cut. qmin < v"
  shows "\<exists>ys_cut fill_val.
           cut_q qmax_cut (CutAt qmin) qs ys = Inr (qs_cut, ys_cut)
           \<and> length ys_cut = length qs_cut
           \<and> first_retained qmin qs_cut ys_qmax = Some fill_val
           \<and> (\<forall>i < length qs_cut.
                ys_cut ! i = (if qmin < qs_cut ! i then ys_qmax ! i else fill_val))"
proof -
  from assms(3) have nb: "qmax_cut \<noteq> BadText"
    by (auto simp: cut_q_def cut_qmax_def)
  from cut_qmax_sorted [OF assms(1,2) nb] obtain k where k: "k \<le> length qs"
    and qm: "cut_qmax qmax_cut qs ys = Inr (take k qs, take k ys)" by blast
  from assms(3) qm have xc: "qs_cut = take k qs" and yc0: "ys_qmax = take k ys"
    by (simp_all add: cut_q_def cut_qmin_def)
  have len: "length qs_cut = k" using k xc by simp
  have srt: "sorted qs_cut" unfolding xc using assms(1) by (rule sorted_wrt_take)
  have le: "length qs_cut \<le> length ys" using len k assms(2) by simp
  from qmin_padded_sorted [OF srt le assms(4)] obtain k2 where k2: "k2 < length qs_cut"
    and pad: "qmin_padded qmin ys qs_cut
        = Inr (replicate k2 (ys ! k2) @ map ((!) ys) [k2..<length qs_cut])"
    and above: "\<forall>i < length qs_cut. (qmin < qs_cut ! i) = (k2 \<le> i)" by blast
  let ?yc = "replicate k2 (ys ! k2) @ map ((!) ys) [k2..<length qs_cut]"
  have run: "cut_q qmax_cut (CutAt qmin) qs ys = Inr (qs_cut, ?yc)"
    using qm pad xc by (simp add: cut_q_def cut_qmin_def)
  have l: "length ?yc = length qs_cut" using k2 by simp
  have ylen: "length ys_qmax = length qs_cut" using yc0 len k assms(2) by simp
  have y0: "ys_qmax ! i = ys ! i" if "i < length qs_cut" for i
    using that len yc0 by simp
  have "find (\<lambda>(q, y). qmin < q) (zip qs_cut ys_qmax)
      = Some (zip qs_cut ys_qmax ! k2)"
    unfolding find_Some_iff using k2 above ylen
    by (intro exI [of _ k2]) auto
  then have fr: "first_retained qmin qs_cut ys_qmax = Some (ys ! k2)"
    using k2 ylen y0 by (simp add: first_retained_def)
  have each: "?yc ! i = (if qmin < qs_cut ! i then ys_qmax ! i else ys ! k2)"
    if i: "i < length qs_cut" for i
  proof (cases "k2 \<le> i")
    case True
    then have "?yc ! i = ys ! i" using i by (simp add: nth_append)
    with True i above y0 show ?thesis by simp
  next
    case False
    then have "?yc ! i = ys ! k2" by (simp add: nth_append)
    with False i above show ?thesis by simp
  qed
  from run l fr each show ?thesis by blast
qed



theorem qmin_cut_pads_witness:
  "\<exists>ys_cut fill_val.
      cut_q (CutAt (5 / 2)) (CutAt (3 / 2)) [1, 2, 3] [10, 20, 30] = Inr ([1, 2], ys_cut)
      \<and> length ys_cut = 2
      \<and> first_retained (3 / 2) [1, 2] [10, 20] = Some fill_val
      \<and> ys_cut ! 0 = fill_val \<and> ys_cut ! 1 = 20"
proof -
  have s: "sorted [1, 2, 3 :: real]" by simp
  have l: "length [1, 2, 3 :: real] = length [10, 20, 30 :: real]" by simp
  have u: "[0..<3] = [0, 1, 2]" by (simp add: upt_rec)
  have c: "cut_q (CutAt (5 / 2)) NoCut [1, 2, 3] [10, 20, 30] = Inr ([1, 2], [10, 20])"
    by (simp add: cut_q_def cut_qmax_def cut_qmin_def np_where_def np_take_def u)
  have a: "\<exists>v \<in> set [1, 2 :: real]. 3 / 2 < v" by simp
  from qmin_cut_pads [OF s l c a] show ?thesis by force
qed

text \<open>
  Claim C3 as stated fails when no Q is above q-min: on the curve with Q values 1, 2
  and intensities 10, 20, cut at q-min 5, nothing is retained, so there is no first
  retained intensity, and yet both entries are replaced by 10, the intensity at the
  first Q of the curve (where \<open>np.argmax\<close> of an all-false mask points).
\<close>

theorem qmin_cut_nothing_retained:
  "cut_q NoCut (CutAt 5) [1, 2] [10, 20] = Inr ([1, 2], [10, 10])
   \<and> first_retained 5 [1, 2] [10, 20] = None"
proof -
  have u: "[0..<2] = [0, 1]" by (simp add: upt_rec)
  show ?thesis
    by (simp add: cut_q_def cut_qmax_def cut_qmin_def qmin_padded_def np_argmax_def
        np_where_def np_take_def first_retained_def u)
qed

subsection \<open>Missing input\<close>

lemma no_new_results_refl: "no_new_results d d"
  by (simp add: no_new_results_def)

lemma calc_sq_silent:
  assumes "cor_x_cut d = [] \<or> composition_table w = []
            \<or> (mod_func_input w = ''Cosine-window'' \<and> window_start_input w = None
                \<and> (\<exists>compo. get_composition_dict ed (composition_table w) = Inr compo))"
  shows "silent_return (on_click_calc_sq c ed w d) d"
proof -
  have e: "get_composition_dict ed [] = Inr []"
    by (simp add: get_composition_dict_def float_sum_def)
  from assms consider "cor_x_cut d = []" | "composition_table w = []"
    | compo where "mod_func_input w = ''Cosine-window''" "window_start_input w = None"
        "get_composition_dict ed (composition_table w) = Inr compo"
    by blast
  then show ?thesis
  proof cases
    case 1
    then show ?thesis
      by (simp add: on_click_calc_sq_def silent_return_def no_new_results_def)
  next
    case 2
    then show ?thesis
      by (simp add: on_click_calc_sq_def silent_return_def no_new_results_def e)
  next
    case 3
    then show ?thesis
      by (simp add: on_click_calc_sq_def silent_return_def no_new_results_def Let_def)
  qed
qed

lemma refine_cleared_no_new: "no_new_results d (refine_cleared d)"
  by (simp add: refine_cleared_def no_new_results_def split: option.splits)

lemma refine_cleared_fields:
  "int_func (refine_cleared d) = int_func d" "cor_x_cut (refine_cleared d) = cor_x_cut d"
  by (simp_all add: refine_cleared_def split: option.splits)

lemma refine_silent:
  assumes "int_func d = [] \<or> (cor_x_cut d = [] \<and> data_consistent d)
            \<or> composition_table w = []
            \<or> (mod_func_input w = ''Cosine-window'' \<and> window_start_input w = None)"
  shows "silent_return (on_click_refine c ed w d) d"
proof -
  have e: "get_composition_dict ed [] = Inr []"
    by (simp add: get_composition_dict_def float_sum_def)
  have nn: "no_new_results d (refine_cleared d\<lparr>mod_func := m\<rparr>)" for m
    using refine_cleared_no_new [of d] by (simp add: no_new_results_def)
  have nw: "no_new_results d (refine_cleared d\<lparr>mod_func := m, window_start := ws\<rparr>)" for m ws
    using refine_cleared_no_new [of d] by (simp add: no_new_results_def)
  from assms consider "int_func d = []"
    | "int_func d \<noteq> []" "mod_func_input w = ''Cosine-window''" "window_start_input w = None"
    | "int_func d \<noteq> []" "composition_table w = []"
        "\<not> (mod_func_input w = ''Cosine-window'' \<and> window_start_input w = None)"
    by (auto simp: data_consistent_def)
  then show ?thesis
  proof cases
    case 1
    then show ?thesis
      using refine_cleared_no_new [of d]
      by (simp add: on_click_refine_def silent_return_def Let_def refine_cleared_fields)
  next
    case 2
    then show ?thesis
      using nn by (simp add: on_click_refine_def silent_return_def Let_def refine_cleared_fields)
  next
    case 3
    then show ?thesis
      using nn nw
      by (auto simp: on_click_refine_def silent_return_def Let_def refine_cleared_fields e
          split: option.splits)
  qed
qed

lemma plot_data_clears_int_func:
  "plot_data c w d = Inr (d', ev) \<Longrightarrow> int_func d' = []"
  by (auto simp: plot_data_def plot_data_cleared_def smooth_checked_def Let_def
      split: sum.splits option.splits if_splits prod.splits)

lemma calc_sq_keeps_consistent:
  "data_consistent d \<Longrightarrow> on_click_calc_sq c ed w d = Inr (d', ev) \<Longrightarrow> data_consistent d'"
  by (auto simp: on_click_calc_sq_def calc_sq_compute_def data_consistent_def Let_def
      split: sum.splits option.splits if_splits prod.splits)

lemma initial_data_consistent: "data_consistent initial_data"
  by (simp add: data_consistent_def initial_data_def)

lemma refine_finish_keeps:
  "refine_finish c w compo d rho r_min n_iter ev0 = Inr (d', ev)
     \<Longrightarrow> int_func d' = int_func d \<and> cor_x_cut d' = cor_x_cut d"
  by (auto simp: refine_finish_def
      split: option.splits win.splits sum.splits refine_out.splits prod.splits)

lemma refine_run_keeps:
  "refine_run c w compo d = Inr (d', ev)
     \<Longrightarrow> int_func d' = int_func d \<and> cor_x_cut d' = cor_x_cut d"
  by (auto simp: refine_run_def refine_optimise_def
      split: option.splits win.splits sum.splits list.splits if_splits
      dest!: refine_finish_keeps)

lemma refine_keeps_consistent:
  assumes "data_consistent d" and "on_click_refine c ed w d = Inr (d', ev)"
  shows "data_consistent d'"
proof -
  have "int_func d' = int_func d \<and> cor_x_cut d' = cor_x_cut d"
    using assms(2)
    by (auto simp: on_click_refine_def Let_def refine_cleared_fields
        split: if_splits sum.splits option.splits dest!: refine_run_keeps)
  with assms(1) show ?thesis by (simp add: data_consistent_def)
qed

text \<open>
  Claim C8, as amended. The calculation entry point returns silently (no exception, no
  new S(Q) or other result, at most the printed hint) when no intensity data is loaded
  or cut, when the composition table is empty, or when cosine-window is selected without
  a window-start value and the composition table can be read without an exception. The
  refinement entry point returns silently when no interference function has been
  computed (in particular when no intensity data is cut, in a consistent dictionary),
  when the composition table is empty, or when cosine-window is selected without a
  window-start value.
\<close>

theorem missing_input_returns_silently:
  "(cor_x_cut d = [] \<or> composition_table w = []
      \<or> (mod_func_input w = ''Cosine-window'' \<and> window_start_input w = None
          \<and> (\<exists>compo. get_composition_dict ed (composition_table w) = Inr compo))
     \<longrightarrow> silent_return (on_click_calc_sq c ed w d) d)
   \<and> (int_func d = [] \<or> (cor_x_cut d = [] \<and> data_consistent d)
        \<or> composition_table w = []
        \<or> (mod_func_input w = ''Cosine-window'' \<and> window_start_input w = None)
       \<longrightarrow> silent_return (on_click_refine c ed w d) d)"
  using calc_sq_silent [of d w ed c] refine_silent [of d w c ed] by blast

text \<open>
  Claim C8 as stated fails for the calculation entry point: it reads the composition
  before it looks at the window-start value, so with cosine-window selected, no
  window-start value, data loaded and a composition table whose amounts sum to zero it
  raises ZeroDivisionError instead of returning.
\<close>

theorem calc_sq_raises_without_window_start:
  "on_click_calc_sq no_externals [(''Ga'', 31)]
     (sample_widgets\<lparr>composition_table :=
        [\<lparr>Z_cell = Some 31, charge_cell = Some 0, n_cell = Some 0\<rparr>]\<rparr>) sample_data
     = Inl ZeroDivisionError"
  by (simp add: on_click_calc_sq_def sample_widgets_def sample_data_def initial_data_def
      get_composition_dict_def proportion_def float_sum_def float_add_def py_float_0)

theorem missing_input_returns_silently_witness:
  "silent_return (on_click_calc_sq no_externals [(''Ga'', 31)] sample_widgets sample_data)
     sample_data
   \<and> silent_return (on_click_refine no_externals [(''Ga'', 31)] sample_widgets sample_data)
       sample_data
   \<and> on_click_calc_sq no_externals [(''Ga'', 31)] sample_widgets sample_data
       = Inr (sample_data\<lparr>mod_func := ''Cosine-window''\<rparr>, [Print_set_limit])"
proof -
  have g: "get_composition_dict [(''Ga'', 31)] (composition_table sample_widgets)
             = Inr [(''Ga'', 31, 0, 1)]"
    by (simp add: sample_widgets_def get_composition_dict_def proportion_def float_sum_def
        float_add_def float_div_def py_float_1)
  have m: "mod_func_input sample_widgets = ''Cosine-window''"
    "window_start_input sample_widgets = None"
    by (simp_all add: sample_widgets_def)
  have r: "on_click_calc_sq no_externals [(''Ga'', 31)] sample_widgets sample_data
       = Inr (sample_data\<lparr>mod_func := ''Cosine-window''\<rparr>, [Print_set_limit])"
    by (simp add: on_click_calc_sq_def g m sample_data_def initial_data_def)
  from missing_input_returns_silently
         [of sample_data sample_widgets "[(''Ga'', 31)]" no_externals] g m r
  show ?thesis by blast
qed

subsection \<open>The density optimiser\<close>

lemma refine_finish_solver_free:
  "refine_finish (c\<lparr>minimize := m'\<rparr>) w compo d rho r_min n_iter ev
     = refine_finish c w compo d rho r_min n_iter ev"
  by (simp add: refine_finish_def
      cong: option.case_cong win.case_cong sum.case_cong refine_out.case_cong prod.case_cong)

lemma density_call_solver_free:
  "density_call (c\<lparr>minimize := m'\<rparr>) rho lb ub a = density_call c rho lb ub a"
  by (simp add: density_call_def)

lemma refine_optimise_solver:
  assumes "\<forall>rho lb ub a. a_opt_flag a = 1 \<longrightarrow>
             m' (density_call c rho lb ub a) = minimize c (density_call c rho lb ub a)"
  shows "refine_optimise (c\<lparr>minimize := m'\<rparr>) w compo d rho_0 r_min n_iter lb ub
           = refine_optimise c w compo d rho_0 r_min n_iter lb ub"
proof -
  have call: "m' (density_call c rho_0 lb ub a) = minimize c (density_call c rho_0 lb ub a)"
    if "a_opt_flag a = 1" for a
    using assms that by blast
  show ?thesis
    unfolding refine_optimise_def density_call_solver_free refine_finish_solver_free
    by (simp add: call
        cong: option.case_cong win.case_cong sum.case_cong list.case_cong)
qed

lemma refine_cleared_keeps:
  "window_start (refine_cleared d) = window_start d"
  "cor_y_cut (refine_cleared d) = cor_y_cut d"
  by (simp_all add: refine_cleared_def split: option.splits)

lemma refine_reaches_solver:
  assumes "int_func d \<noteq> []" and "opt_check w"
    and "\<not> (mod_func_input w = ''Cosine-window'' \<and> window_start_input w = None)"
    and "get_composition_dict ed (composition_table w) = Inr compo" and "compo \<noteq> []"
    and "density_input w = Some rho_0" and "rmin_input w = Some r_min"
    and "niter_input w = Some n_iter" and "lb_input w = Some lb" and "ub_input w = Some ub"
    and "sq_method w = Some m"
    and "ws = (if mod_func_input w = ''Cosine-window''
               then (case window_start_input w of None \<Rightarrow> window_start d | Some v \<Rightarrow> Win v)
               else window_start d)"
    and "ws \<noteq> Win_absent"
    and "d2 = (refine_cleared d)\<lparr>mod_func := mod_func_input w, window_start := ws\<rparr>"
  shows "on_click_refine c ed w d =
    (case minimize c
            (density_call c rho_0 lb ub
               \<lparr>a_q_data = cor_x_cut d, a_y_data = cor_y_cut d, a_composition = compo,
                a_r_min = r_min, a_d_pq = 29 / 10, a_n_iter = n_iter, a_sq_method = m,
                a_mod_func = mod_func_input w, a_window_start = ws, a_opt_flag = 1\<rparr>) of
       Inl e \<Rightarrow> Inl e
     | Inr opt_result \<Rightarrow>
         (case opt_x opt_result of
            [] \<Rightarrow> Inl IndexError
          | rho # rest \<Rightarrow>
              (case conv_density c rho compo of
                 Inl e \<Rightarrow> Inl e
               | Inr mass_density \<Rightarrow>
                   refine_finish c w compo (d2\<lparr>refined_rho := Some rho\<rparr>) rho r_min n_iter
                     [Print_finding_density, Print_refined_density rho,
                      Print_chi_sq (opt_fun opt_result), Show_density rho,
                      Show_mass_density mass_density])))"
proof -
  let ?d1 = "(refine_cleared d)\<lparr>mod_func := mod_func_input w\<rparr>"
  let ?d2 = "if mod_func ?d1 = ''Cosine-window''
             then (case window_start_input w of
                     None \<Rightarrow> ?d1
                   | Some v \<Rightarrow> ?d1\<lparr>window_start := Win v\<rparr>)
             else ?d1"
  have "?d2 = d2"
    using assms(3,12,14) by (auto simp: refine_cleared_keeps split: option.splits)
  then have same: "d2 = ?d2" by (rule sym)
  have run: "on_click_refine c ed w d = refine_run c w compo d2"
  proof (cases "mod_func_input w = ''Cosine-window''")
    case True
    with assms(3) obtain v where v: "window_start_input w = Some v"
      by (cases "window_start_input w") auto
    show ?thesis
      unfolding same using assms(1,4,5) True v
      by (simp add: on_click_refine_def Let_def refine_cleared_fields)
  next
    case False
    show ?thesis
      unfolding same using assms(1,4,5) False
      by (simp add: on_click_refine_def Let_def refine_cleared_fields)
  qed
  have fields: "window_start d2 = ws" "cor_x_cut d2 = cor_x_cut d"
    "cor_y_cut d2 = cor_y_cut d" "mod_func d2 = mod_func_input w"
    using assms(14) by (simp_all add: refine_cleared_fields refine_cleared_keeps)
  have opt: "refine_run c w compo d2 = refine_optimise c w compo d2 rho_0 r_min n_iter lb ub"
    using assms(2,6,7,8,9,10) by (simp add: refine_run_def)
  show ?thesis
    unfolding run opt refine_optimise_def using assms(11,13)
    by (cases ws) (simp_all add: fields)
qed

text \<open>
  Claim C2. The density refinement is a bounded L-BFGS-B minimisation (a quasi-Newton
  method with box constraints) over one variable, the number density: the call that
  packs the solver's arguments starts at the density given, has a single pair of
  bounds, function tolerance 2.22e-8, gradient-projection tolerance 1e-10 and at most
  15000 iterations and 15000 function evaluations, and has
  \<open>calc_impr_interference_func\<close> as its objective. The refinement handler consults the
  solver in no other way: a solver that agrees with the given one on these calls,
  passed the flag 1 that asks for chi-squared alone, gives the same outcome. And it
  does consult it: when density refinement is selected and every input is present, the
  outcome of the handler is the solver's answer to exactly that call (started at the
  density of the input field, bounded by the two bound fields, on the cut data with
  the flag 1), an exception of the solver being the handler's exception and the
  solver's minimiser the refined density that the rest of the handler works with.
\<close>

theorem density_optimiser_call:
  "options (density_call c rho_0 lb ub a)
     = \<lparr>disp = 0, maxiter = 15000, maxfun = 15000, ftol = 222 / 10 ^ 10, gtol = 1 / 10 ^ 10\<rparr>
   \<and> solver_method (density_call c rho_0 lb ub a) = ''L-BFGS-B''
   \<and> bounds (density_call c rho_0 lb ub a) = [(lb, ub)]
   \<and> x0 (density_call c rho_0 lb ub a) = rho_0
   \<and> objective (density_call c rho_0 lb ub a) = calc_impr_interference_func c
   \<and> args (density_call c rho_0 lb ub a) = a
   \<and> ((\<forall>rho lb ub a. a_opt_flag a = 1 \<longrightarrow>
          m' (density_call c rho lb ub a) = minimize c (density_call c rho lb ub a))
        \<longrightarrow> on_click_refine (c\<lparr>minimize := m'\<rparr>) ed w d = on_click_refine c ed w d)
   \<and> (int_func d \<noteq> [] \<and> opt_check w
        \<and> \<not> (mod_func_input w = ''Cosine-window'' \<and> window_start_input w = None)
        \<and> get_composition_dict ed (composition_table w) = Inr compo \<and> compo \<noteq> []
        \<and> density_input w = Some rho_0 \<and> rmin_input w = Some r_min
        \<and> niter_input w = Some n_iter \<and> lb_input w = Some lb \<and> ub_input w = Some ub
        \<and> sq_method w = Some m
        \<and> ws = (if mod_func_input w = ''Cosine-window''
                 then (case window_start_input w of
                         None \<Rightarrow> window_start d
                       | Some v \<Rightarrow> Win v)
                 else window_start d)
        \<and> ws \<noteq> Win_absent
        \<and> d2 = (refine_cleared d)\<lparr>mod_func := mod_func_input w, window_start := ws\<rparr>
       \<longrightarrow> on_click_refine c ed w d =
             (case minimize c
                     (density_call c rho_0 lb ub
                        \<lparr>a_q_data = cor_x_cut d, a_y_data = cor_y_cut d,
                         a_composition = compo, a_r_min = r_min, a_d_pq = 29 / 10,
                         a_n_iter = n_iter, a_sq_method = m,
                         a_mod_func = mod_func_input w, a_window_start = ws,
                         a_opt_flag = 1\<rparr>) of
                Inl e \<Rightarrow> Inl e
              | Inr opt_result \<Rightarrow>
                  (case opt_x opt_result of
                     [] \<Rightarrow> Inl IndexError
                   | rho # rest \<Rightarrow>
                       (case conv_density c rho compo of
                          Inl e \<Rightarrow> Inl e
                        | Inr mass_density \<Rightarrow>
                            refine_finish c w compo (d2\<lparr>refined_rho := Some rho\<rparr>) rho
                              r_min n_iter
                              [Print_finding_density, Print_refined_density rho,
                               Print_chi_sq (opt_fun opt_result), Show_density rho,
                               Show_mass_density mass_density]))))"
proof -
  have frame: "on_click_refine (c\<lparr>minimize := m'\<rparr>) ed w d = on_click_refine c ed w d"
    if h: "\<forall>rho lb ub a. a_opt_flag a = 1 \<longrightarrow>
             m' (density_call c rho lb ub a) = minimize c (density_call c rho lb ub a)"
  proof -
    have run: "refine_run (c\<lparr>minimize := m'\<rparr>) w compo d' = refine_run c w compo d'"
      for compo d'
      unfolding refine_run_def refine_finish_solver_free refine_optimise_solver [OF h] ..
    show ?thesis
      unfolding on_click_refine_def run ..
  qed
  have packed: "options (density_call c rho_0 lb ub a)
     = \<lparr>disp = 0, maxiter = 15000, maxfun = 15000, ftol = 222 / 10 ^ 10, gtol = 1 / 10 ^ 10\<rparr>
   \<and> solver_method (density_call c rho_0 lb ub a) = ''L-BFGS-B''
   \<and> bounds (density_call c rho_0 lb ub a) = [(lb, ub)]
   \<and> x0 (density_call c rho_0 lb ub a) = rho_0
   \<and> objective (density_call c rho_0 lb ub a) = calc_impr_interference_func c
   \<and> args (density_call c rho_0 lb ub a) = a"
    by (simp add: density_call_def minimisation_options_def op_method_def)
  from packed frame refine_reaches_solver [of d w ed compo rho_0 r_min n_iter lb ub m ws d2 c]
  show ?thesis by blast
qed

theorem density_optimiser_call_witness:
  "on_click_refine (echo_externals\<lparr>minimize := strict_solver\<rparr>) [(''Ga'', 31)]
       (sample_widgets\<lparr>mod_func_input := ''None''\<rparr>) sample_data
     = on_click_refine echo_externals [(''Ga'', 31)]
         (sample_widgets\<lparr>mod_func_input := ''None''\<rparr>) sample_data
   \<and> (\<exists>d' ev. on_click_refine echo_externals [(''Ga'', 31)]
                  (sample_widgets\<lparr>mod_func_input := ''None''\<rparr>) sample_data = Inr (d', ev)
        \<and> refined_rho d' = Some (1 / 100) \<and> chi_sq d' = Some (1 / 10000))
   \<and> on_click_refine (echo_externals\<lparr>minimize := (\<lambda>call. Inl OtherError)\<rparr>) [(''Ga'', 31)]
         (sample_widgets\<lparr>mod_func_input := ''None''\<rparr>) sample_data
       = Inl OtherError"
proof -
  let ?w = "sample_widgets\<lparr>mod_func_input := ''None''\<rparr>"
  let ?failing = "echo_externals\<lparr>minimize := (\<lambda>call. Inl OtherError)\<rparr>"
  have agree: "\<forall>rho lb ub a. a_opt_flag a = 1 \<longrightarrow>
      strict_solver (density_call echo_externals rho lb ub a)
        = minimize echo_externals (density_call echo_externals rho lb ub a)"
    by (simp add: strict_solver_def density_call_def minimisation_options_def op_method_def
        echo_externals_def)
  have g: "get_composition_dict [(''Ga'', 31)] (composition_table ?w)
             = Inr [(''Ga'', 31, 0, 1)]"
    by (simp add: sample_widgets_def get_composition_dict_def proportion_def float_sum_def
        float_add_def float_div_def py_float_1)
  have run: "\<exists>d' ev. on_click_refine echo_externals [(''Ga'', 31)] ?w sample_data
                 = Inr (d', ev)
        \<and> refined_rho d' = Some (1 / 100) \<and> chi_sq d' = Some (1 / 10000)"
    unfolding on_click_refine_def g
    by (simp add: refine_cleared_def refine_run_def refine_optimise_def refine_finish_def
        sq_method_def density_call_def sample_widgets_def sample_data_def initial_data_def
        echo_externals_def no_externals_def)
  have inputs: "int_func sample_data \<noteq> []" "opt_check ?w"
    "\<not> (mod_func_input ?w = ''Cosine-window'' \<and> window_start_input ?w = None)"
    "density_input ?w = Some 1" "rmin_input ?w = Some 2" "niter_input ?w = Some 5"
    "lb_input ?w = Some (1 / 100)" "ub_input ?w = Some 1"
    "sq_method ?w = Some ''ashcroft-langreth''"
    "Win_None = (if mod_func_input ?w = ''Cosine-window''
                 then (case window_start_input ?w of
                         None \<Rightarrow> window_start sample_data
                       | Some v \<Rightarrow> Win v)
                 else window_start sample_data)"
    by (simp_all add: sample_widgets_def sample_data_def initial_data_def sq_method_def)
  have "on_click_refine ?failing [(''Ga'', 31)] ?w sample_data = Inl OtherError"
    using density_optimiser_call
            [where c = ?failing and ed = "[(''Ga'', 31)]" and w = ?w and d = sample_data
               and compo = "[(''Ga'', 31, 0, 1)]" and ?rho_0.0 = 1 and lb = "1 / 100"
               and ub = 1 and r_min = 2 and n_iter = 5 and m = "''ashcroft-langreth''"
               and ws = Win_None
               and ?d2.0 = "(refine_cleared sample_data)
                              \<lparr>mod_func := mod_func_input ?w, window_start := Win_None\<rparr>"]
          g inputs
    by simp
  moreover from density_optimiser_call
         [where c = echo_externals and m' = strict_solver and ed = "[(''Ga'', 31)]"
            and w = ?w and d = sample_data]
       agree
  have "on_click_refine (echo_externals\<lparr>minimize := strict_solver\<rparr>) [(''Ga'', 31)] ?w
          sample_data
        = on_click_refine echo_externals [(''Ga'', 31)] ?w sample_data"
    by blast
  ultimately show ?thesis using run by blast
qed

subsection \<open>The Eggert refinement\<close>

lemma eggert_loop_counts:
  "eggert_loop ops n (i_q, k) = ((eggert_step ops ^^ n) i_q, k + n)"
  by (induction n arbitrary: i_q k) (simp_all add: funpow_swap1)

text \<open>
  Claim C1. Running the Eggert refinement with \<open>n_iter = 0\<close> performs no correction
  step and returns the unrefined interference function with the chi-squared computed
  directly from it; for every \<open>n_iter\<close> the loop body is executed exactly \<open>n_iter\<close>
  times, with no early exit: the refined curve is the correction step applied \<open>n_iter\<close>
  times to the initial curve, and chi-squared is computed from that curve.
\<close>

theorem eggert_fixed_iteration_count:
  "eggert_refine ops 0 intensity
     = \<lparr>refined = initialise ops intensity,
        chi_squared = chi_squared_of ops (initialise ops intensity), iterations = 0\<rparr>
   \<and> iterations (eggert_refine ops n_iter intensity) = n_iter
   \<and> refined (eggert_refine ops n_iter intensity)
       = (eggert_step ops ^^ n_iter) (initialise ops intensity)
   \<and> chi_squared (eggert_refine ops n_iter intensity)
       = chi_squared_of ops (refined (eggert_refine ops n_iter intensity))"
  by (simp add: eggert_refine_def eggert_loop_counts)

subsection \<open>The cosine window\<close>

lemma cosine_window_range: "0 \<le> cosine_window m w q \<and> cosine_window m w q \<le> 1"
proof (cases "q < w \<or> m \<le> w")
  case True
  then show ?thesis by (auto simp: cosine_window_def)
next
  case False
  let ?c = "cos (pi * (q - w) / (m - w))"
  have lo: "- 1 \<le> ?c" by (rule cos_ge_minus_one)
  have hi: "?c \<le> 1" by (rule cos_le_one)
  from lo have "0 \<le> 1 + ?c" by linarith
  with hi have "0 \<le> (1 + ?c) / 2 \<and> (1 + ?c) / 2 \<le> 1" by simp
  with False show ?thesis by (simp add: cosine_window_def)
qed

lemma cosine_window_antimono:
  assumes "w \<le> q1" and "q1 \<le> q2" and "q2 \<le> m"
  shows "cosine_window m w q2 \<le> cosine_window m w q1"
proof (cases "m \<le> w")
  case True
  then show ?thesis by (simp add: cosine_window_def)
next
  case False
  then have pos: "0 < m - w" by simp
  let ?t = "\<lambda>q. pi * (q - w) / (m - w)"
  have t1: "0 \<le> ?t q1" using assms(1) pos by simp
  have t12: "?t q1 \<le> ?t q2"
    using assms(2) pos by (simp add: divide_right_mono mult_left_mono)
  have "(q2 - w) / (m - w) \<le> 1" using assms(3) pos by simp
  then have "pi * ((q2 - w) / (m - w)) \<le> pi * 1"
    by (intro mult_left_mono) simp_all
  then have t2: "?t q2 \<le> pi" by simp
  have "cos (?t q2) \<le> cos (?t q1)"
    using t1 t12 t2 by (rule cos_monotone_0_pi_le)
  with False assms show ?thesis by (simp add: cosine_window_def)
qed

text \<open>
  Claim C4. For every Q sequence and window-start value, the cosine-window
  modification function has one value per Q, is exactly 1 at every Q strictly below
  window-start, is monotonically non-increasing over the Q values at or above
  window-start (of two such Q values, the larger has the smaller or equal damping),
  has all its values in the interval from 0 to 1, and reaches 0 at Qmax when
  window-start is below Qmax.
\<close>

theorem cosine_window_taper:
  "length (cosine_window_func Q w) = length Q
   \<and> (\<forall>i < length Q. Q ! i < w \<longrightarrow> cosine_window_func Q w ! i = 1)
   \<and> (\<forall>i < length Q. \<forall>j < length Q. w \<le> Q ! i \<and> Q ! i \<le> Q ! j \<longrightarrow>
         cosine_window_func Q w ! j \<le> cosine_window_func Q w ! i)
   \<and> (\<forall>i < length Q. 0 \<le> cosine_window_func Q w ! i \<and> cosine_window_func Q w ! i \<le> 1)
   \<and> (\<forall>i < length Q. w < Max (set Q) \<and> Q ! i = Max (set Q) \<longrightarrow>
         cosine_window_func Q w ! i = 0)"
proof -
  have le_max: "Q ! j \<le> Max (set Q)" if "j < length Q" for j
    using that by simp
  have zero: "cosine_window_func Q w ! i = 0"
    if "i < length Q" "w < Max (set Q)" "Q ! i = Max (set Q)" for i
    using that by (simp add: cosine_window_func_def cosine_window_def)
  have mono: "cosine_window_func Q w ! j \<le> cosine_window_func Q w ! i"
    if "i < length Q" "j < length Q" "w \<le> Q ! i" "Q ! i \<le> Q ! j" for i j
    using that cosine_window_antimono [OF that(3,4) le_max [OF that(2)]]
    by (simp add: cosine_window_func_def)
  have one: "cosine_window_func Q w ! i = 1" if "i < length Q" "Q ! i < w" for i
    using that by (simp add: cosine_window_func_def cosine_window_def)
  have rng: "0 \<le> cosine_window_func Q w ! i \<and> cosine_window_func Q w ! i \<le> 1"
    if "i < length Q" for i
    using that cosine_window_range by (simp add: cosine_window_func_def)
  from mono one rng zero show ?thesis by (simp add: cosine_window_func_def)
qed

theorem cosine_window_taper_witness:
  "cosine_window_func [0, 1, 2, 3] 1 ! 0 = 1
   \<and> cosine_window_func [0, 1, 2, 3] 1 ! 3 \<le> cosine_window_func [0, 1, 2, 3] 1 ! 2
   \<and> cosine_window_func [0, 1, 2, 3] 1 ! 2 \<le> cosine_window_func [0, 1, 2, 3] 1 ! 1
   \<and> 0 \<le> cosine_window_func [0, 1, 2, 3] 1 ! 3"
proof -
  let ?Q = "[0, 1, 2, 3] :: real list"
  have l: "length ?Q = 4" by simp
  have q: "?Q ! 0 = 0" "?Q ! 1 = 1" "?Q ! 2 = 2" "?Q ! 3 = 3" by simp_all
  from cosine_window_taper [of ?Q 1]
  have a: "\<forall>i < length ?Q. ?Q ! i < 1 \<longrightarrow> cosine_window_func ?Q 1 ! i = 1"
    and b: "\<forall>i < length ?Q. \<forall>j < length ?Q. 1 \<le> ?Q ! i \<and> ?Q ! i \<le> ?Q ! j \<longrightarrow>
         cosine_window_func ?Q 1 ! j \<le> cosine_window_func ?Q 1 ! i"
    and c: "\<forall>i < length ?Q. 0 \<le> cosine_window_func ?Q 1 ! i \<and> cosine_window_func ?Q 1 ! i \<le> 1"
    by blast+
  have "cosine_window_func ?Q 1 ! 0 = 1" using a [rule_format, of 0] by simp
  moreover have "cosine_window_func ?Q 1 ! 3 \<le> cosine_window_func ?Q 1 ! 2"
    using b [rule_format, of 2 3] by simp
  moreover have "cosine_window_func ?Q 1 ! 2 \<le> cosine_window_func ?Q 1 ! 1"
    using b [rule_format, of 1 2] by simp
  moreover have "0 \<le> cosine_window_func ?Q 1 ! 3" using c [rule_format, of 3] by simp
  ultimately show ?thesis by blast
qed

end
